theory Spec2Isabelle
  imports Complex_Main "HOL-Library.Char_ord" "HOL-Library.List_Lexorder"
begin

section \<open>Survivor Draft: scoring, progression, standings and game state\<close>

text \<open>
  A shallow embedding of the four read-side computations of \<^verbatim>\<open>src/app.py\<close>:
  \<^verbatim>\<open>calculate_scores\<close>, \<^verbatim>\<open>compute_score_progression\<close>,
  \<^verbatim>\<open>load_all_predictions\<close> and \<^verbatim>\<open>get_game_state\<close>.

  Each of them starts with two queries against the remote store, one for the
  \<^verbatim>\<open>castaways\<close> table and one for the \<^verbatim>\<open>predictions\<close> table. The model makes the
  two query results explicit arguments: a list of castaway rows and a list of prediction
  rows, in the order the store returned them. Python integers are \<^typ>\<open>int\<close>, a nullable
  column is an \<^typ>\<open>'a option\<close>, an exception is the left summand of the result.

  The two flags of a castaway are read through \<^verbatim>\<open>bool(row.get(...))\<close> and
  \<^verbatim>\<open>== True\<close>, so a null flag counts as unset and the model takes them as
  \<^typ>\<open>bool\<close>. Strings are compared as Python compares them, character by character on
  the character codes.
\<close>

subsection \<open>Data model\<close>

record castaway =
  player_name :: string
  tribe :: string
  actual_rank :: "int option"
  is_final_three :: bool
  is_winner :: bool

record prediction =
  username :: string
  pred_player_name :: string
  predicted_rank :: int

text \<open>The exceptions that the pandas calls of the four functions can raise.\<close>

datatype py_error = KeyError | ValueError | TypeError

subsection \<open>The join of predictions with eliminated castaways\<close>

text \<open>
  \<^verbatim>\<open>merged = pred_df.merge(cast_df, on="player_name", how="left")\<close> followed by
  \<^verbatim>\<open>scored = merged[merged["actual_rank"].notna()]\<close>: a left join keeps the order of the
  prediction rows and, for one prediction, the order of the matching castaway rows. A
  prediction without a matching castaway gets a null \<^verbatim>\<open>actual_rank\<close> and is dropped by
  the filter, as is a match whose castaway has no rank yet.
\<close>

record scored_row =
  s_username :: string
  s_player_name :: string
  s_predicted_rank :: int
  s_actual_rank :: int
  s_is_final_three :: bool
  s_is_winner :: bool

definition joined_row :: "prediction \<Rightarrow> castaway \<Rightarrow> int \<Rightarrow> scored_row" where
  "joined_row p c a =
     \<lparr>s_username = username p, s_player_name = pred_player_name p,
      s_predicted_rank = predicted_rank p, s_actual_rank = a,
      s_is_final_three = is_final_three c, s_is_winner = is_winner c\<rparr>"

definition join_row :: "prediction \<Rightarrow> castaway \<Rightarrow> scored_row list" where
  "join_row p c =
     (if player_name c = pred_player_name p then
        (case actual_rank c of
           None \<Rightarrow> []
         | Some a \<Rightarrow> [joined_row p c a])
      else [])"

definition merge_scored :: "castaway list \<Rightarrow> prediction list \<Rightarrow> scored_row list" where
  "merge_scored cast preds = concat (map (\<lambda>p. concat (map (join_row p) cast)) preds)"

text \<open>
  \<^verbatim>\<open>scored.groupby("username")\<close> iterates over the groups in ascending order of the
  key; the rows of one group keep their order in \<^verbatim>\<open>scored\<close>.
\<close>

definition groupby_keys :: "scored_row list \<Rightarrow> string list" where
  "groupby_keys scored = sort (remdups (map s_username scored))"

definition get_group :: "scored_row list \<Rightarrow> string \<Rightarrow> scored_row list" where
  "get_group scored user = filter (\<lambda>r. s_username r = user) scored"

subsection \<open>\<^verbatim>\<open>calculate_scores\<close>\<close>

text \<open>
  The body of the inner loop \<^verbatim>\<open>for _, row in group.iterrows()\<close>, on the two
  accumulators \<^verbatim>\<open>total\<close> and \<^verbatim>\<open>exact\<close>.
\<close>

definition score_step :: "int \<Rightarrow> scored_row \<Rightarrow> int \<times> int \<Rightarrow> int \<times> int" where
  "score_step n_players row acc =
     (let final_3_min = n_players - 2;
          actual = s_actual_rank row;
          predicted = s_predicted_rank row;
          total = fst acc + min actual predicted;
          exact = snd acc;
          total = (if actual = predicted then total + 1 else total);
          exact = (if actual = predicted then exact + 1 else exact);
          in_final_3_actual = (s_is_final_three row \<or> actual \<ge> final_3_min);
          in_final_3_predicted = (predicted \<ge> final_3_min);
          total = (if in_final_3_actual \<and> in_final_3_predicted then total + 3 else total);
          actually_won = (s_is_winner row \<or> actual = n_players);
          predicted_winner = (predicted = n_players);
          total = (if actually_won \<and> predicted_winner then total + 5 else total)
      in (total, exact))"

record score_entry =
  Rank :: int
  Player :: string
  Score :: int
  Exact_Picks :: int
  Picks_Scored :: nat

definition user_result :: "int \<Rightarrow> scored_row list \<Rightarrow> string \<Rightarrow> score_entry" where
  "user_result n_players scored user =
     (let group = get_group scored user;
          acc = fold (score_step n_players) group (0, 0)
      in \<lparr>Rank = 0, Player = user, Score = fst acc, Exact_Picks = snd acc,
          Picks_Scored = length group\<rparr>)"

text \<open>
  \<^verbatim>\<open>sort_values("Score", ascending=False)\<close>. pandas sorts a descending key by reversing
  the column, sorting it ascending and reversing the result; with a stable sort, rows of
  equal score keep their order. The order of equal scores under the default
  \<^verbatim>\<open>quicksort\<close> kind is not fixed by pandas for long columns; the model takes the
  stable one.
\<close>

definition sort_values_desc :: "('a \<Rightarrow> int) \<Rightarrow> 'a list \<Rightarrow> 'a list" where
  "sort_values_desc k xs = rev (sort_key k (rev xs))"

text \<open>\<^verbatim>\<open>reset_index(drop=True)\<close> and \<^verbatim>\<open>df.insert(0, "Rank", df.index + 1)\<close>.\<close>

definition insert_rank :: "score_entry list \<Rightarrow> score_entry list" where
  "insert_rank df = map (\<lambda>(i, r). r\<lparr>Rank := int i + 1\<rparr>) (enumerate 0 df)"

text \<open>
  An empty \<^verbatim>\<open>castaways\<close> table gives \<^verbatim>\<open>pd.DataFrame([])\<close>, a frame without any
  column, so the merge on \<^verbatim>\<open>player_name\<close> raises \<^verbatim>\<open>KeyError\<close>. The test for an empty
  prediction table comes first in the source and returns the empty frame before the merge.
\<close>

definition calculate_scores :: "castaway list \<Rightarrow> prediction list \<Rightarrow> py_error + score_entry list" where
  "calculate_scores cast preds =
     (let n_players = int (length cast) in
      if preds = [] then Inr []
      else if cast = [] then Inl KeyError
      else
        let scored = merge_scored cast preds;
            results = map (user_result n_players scored) (groupby_keys scored)
        in if results = [] then Inr []
           else Inr (insert_rank (sort_values_desc Score results)))"

subsection \<open>\<^verbatim>\<open>compute_score_progression\<close>\<close>

record progression_row =
  Elimination :: int
  Prog_Player :: string
  Prog_Score :: int

text \<open>
  The body of \<^verbatim>\<open>if rank in grp_indexed.index:\<close>, which the source writes out a second
  time rather than sharing it with \<^verbatim>\<open>calculate_scores\<close>. The actual rank is the
  checkpoint itself.
\<close>

definition replay_step :: "int \<Rightarrow> int \<Rightarrow> scored_row \<Rightarrow> int \<Rightarrow> int" where
  "replay_step n_players rank row running =
     (let final_3_min = n_players - 2;
          actual = rank;
          predicted = s_predicted_rank row;
          running = running + min actual predicted;
          running = (if actual = predicted then running + 1 else running);
          in_f3_actual = (s_is_final_three row \<or> actual \<ge> final_3_min);
          in_f3_predicted = (predicted \<ge> final_3_min);
          running = (if in_f3_actual \<and> in_f3_predicted then running + 3 else running);
          running = (if (s_is_winner row \<or> actual = n_players) \<and> predicted = n_players
                     then running + 5 else running)
      in running)"

text \<open>
  The loop \<^verbatim>\<open>for rank in elim_order\<close> of one user. \<^verbatim>\<open>grp_indexed.loc[rank]\<close> is one
  row when the rank occurs once in the group's index. When it occurs more than once,
  \<^verbatim>\<open>loc\<close> returns a frame, \<^verbatim>\<open>row["predicted_rank"]\<close> is a column of several values,
  and \<^verbatim>\<open>int(...)\<close> of it raises \<^verbatim>\<open>TypeError\<close>.
\<close>

fun replay :: "int \<Rightarrow> scored_row list \<Rightarrow> string \<Rightarrow> int list \<Rightarrow> int \<Rightarrow> py_error + progression_row list" where
  "replay n_players grp user [] running = Inr []"
| "replay n_players grp user (rank # ranks) running =
     (case filter (\<lambda>r. s_actual_rank r = rank) grp of
        [] \<Rightarrow>
          (case replay n_players grp user ranks running of
             Inl e \<Rightarrow> Inl e
           | Inr rows \<Rightarrow>
               Inr (\<lparr>Elimination = rank, Prog_Player = user, Prog_Score = running\<rparr> # rows))
      | [row] \<Rightarrow>
          (let running' = replay_step n_players rank row running in
           case replay n_players grp user ranks running' of
             Inl e \<Rightarrow> Inl e
           | Inr rows \<Rightarrow>
               Inr (\<lparr>Elimination = rank, Prog_Player = user, Prog_Score = running'\<rparr> # rows))
      | _ \<Rightarrow> Inl TypeError)"

text \<open>The outer loop \<^verbatim>\<open>for user, grp in scored.groupby("username")\<close>.\<close>

fun replay_users :: "int \<Rightarrow> scored_row list \<Rightarrow> int list \<Rightarrow> string list \<Rightarrow> py_error + progression_row list" where
  "replay_users n_players scored elim_order [] = Inr []"
| "replay_users n_players scored elim_order (user # users) =
     (case replay n_players (get_group scored user) user elim_order 0 of
        Inl e \<Rightarrow> Inl e
      | Inr rows \<Rightarrow>
          (case replay_users n_players scored elim_order users of
             Inl e \<Rightarrow> Inl e
           | Inr rest \<Rightarrow> Inr (rows @ rest)))"

text \<open>
  With an empty \<^verbatim>\<open>castaways\<close> table the frame has no column and
  \<^verbatim>\<open>cast_df["actual_rank"]\<close> raises \<^verbatim>\<open>KeyError\<close>.
\<close>

definition compute_score_progression :: "castaway list \<Rightarrow> prediction list \<Rightarrow> py_error + progression_row list" where
  "compute_score_progression cast preds =
     (let n_players = int (length cast) in
      if cast = [] then Inl KeyError
      else if filter (\<lambda>c. actual_rank c \<noteq> None) cast = [] then Inr []
      else if preds = [] then Inr []
      else
        let scored = merge_scored cast preds;
            elim_order = sort (remdups (map s_actual_rank scored))
        in replay_users n_players scored elim_order (groupby_keys scored))"

subsection \<open>\<^verbatim>\<open>load_all_predictions\<close>\<close>

text \<open>
  The result is a frame indexed by \<^verbatim>\<open>player_name\<close>: the list of its column labels and
  one row per castaway, holding the index value, the two castaway columns and the values
  of the user columns in the order of the labels.
\<close>

record standings_row =
  index_player_name :: string
  row_tribe :: string
  row_actual_rank :: "int option"
  user_values :: "int option list"

record standings =
  columns :: "string list"
  index_rows :: "standings_row list"

text \<open>
  \<^verbatim>\<open>pred_df.pivot(index="player_name", columns="username", values="predicted_rank")\<close>:
  the columns are the distinct usernames in ascending order, a missing cell is null, and
  two predictions for the same (castaway, user) pair raise \<^verbatim>\<open>ValueError\<close>.
\<close>

definition pivot_columns :: "prediction list \<Rightarrow> string list" where
  "pivot_columns preds = sort (remdups (map username preds))"

definition pivot_value :: "prediction list \<Rightarrow> string \<Rightarrow> string \<Rightarrow> int option" where
  "pivot_value preds name user =
     (case filter (\<lambda>p. pred_player_name p = name \<and> username p = user) preds of
        [] \<Rightarrow> None
      | p # _ \<Rightarrow> Some (predicted_rank p))"

definition pivot_duplicates :: "prediction list \<Rightarrow> bool" where
  "pivot_duplicates preds \<longleftrightarrow> \<not> distinct (map (\<lambda>p. (pred_player_name p, username p)) preds)"

text \<open>\<^verbatim>\<open>cast_df.set_index("player_name").join(pivot, how="left")\<close>, one row.\<close>

definition join_pivot :: "prediction list \<Rightarrow> string list \<Rightarrow> castaway \<Rightarrow> standings_row" where
  "join_pivot preds user_cols c =
     \<lparr>index_player_name = player_name c, row_tribe = tribe c, row_actual_rank = actual_rank c,
      user_values = map (pivot_value preds (player_name c)) user_cols\<rparr>"

text \<open>
  \<^verbatim>\<open>result[user_cols].mean(axis=1)\<close>: the mean of the cells that are present, null when
  none is. The source computes it in floating point; the model keeps the exact quotient.
\<close>

definition avg_rank :: "standings_row \<Rightarrow> rat option" where
  "avg_rank r =
     (let present = concat (map (\<lambda>v. case v of None \<Rightarrow> [] | Some x \<Rightarrow> [x]) (user_values r)) in
      if present = [] then None
      else Some (of_int (sum_list present) / of_nat (length present)))"

text \<open>
  \<^verbatim>\<open>sort_values("avg_rank")\<close>: ascending, the rows with a null key last
  (\<^verbatim>\<open>na_position="last"\<close>) in their original order. As above the model takes the stable
  order among equal keys.
\<close>

definition sort_values_na_last :: "('a \<Rightarrow> rat option) \<Rightarrow> 'a list \<Rightarrow> 'a list" where
  "sort_values_na_last k xs =
     sort_key (\<lambda>x. the (k x)) (filter (\<lambda>x. k x \<noteq> None) xs) @ filter (\<lambda>x. k x = None) xs"

text \<open>
  The exceptions, in the order the source reaches them: \<^verbatim>\<open>set_index("player_name")\<close> on
  a frame without columns (empty castaway table), the pivot on duplicate entries, the join
  when a username is the label of a castaway column, and the final selection
  \<^verbatim>\<open>result[col_order]\<close> when a user is called \<^verbatim>\<open>avg_rank\<close>, whose column the
  \<^verbatim>\<open>drop\<close> has just removed.
\<close>

definition load_all_predictions :: "castaway list \<Rightarrow> prediction list \<Rightarrow> py_error + standings" where
  "load_all_predictions cast preds =
     (if preds = [] then
        (if cast = [] then Inl KeyError
         else Inr \<lparr>columns = [''tribe'', ''actual_rank''],
                   index_rows = map (join_pivot [] []) cast\<rparr>)
      else if pivot_duplicates preds then Inl ValueError
      else if cast = [] then Inl KeyError
      else
        let pivot_cols = pivot_columns preds in
        if ''tribe'' \<in> set pivot_cols \<or> ''actual_rank'' \<in> set pivot_cols then Inl ValueError
        else
          let result = map (join_pivot preds pivot_cols) cast;
              user_cols = filter (\<lambda>c. c \<noteq> ''tribe'' \<and> c \<noteq> ''actual_rank'') pivot_cols;
              result = sort_values_na_last avg_rank result;
              col_order = [''tribe'', ''actual_rank''] @ user_cols
          in if ''avg_rank'' \<in> set user_cols then Inl KeyError
             else Inr \<lparr>columns = col_order, index_rows = result\<rparr>)"

subsection \<open>\<^verbatim>\<open>get_game_state\<close>\<close>

text \<open>
  The function returns a dictionary. Before the first elimination it has three keys only
  (\<^verbatim>\<open>n_eliminated\<close>, \<^verbatim>\<open>n_remaining\<close>, \<^verbatim>\<open>most_recent = None\<close>); afterwards it has
  all nine.
\<close>

record game_snapshot =
  n_eliminated :: nat
  n_remaining :: nat
  most_recent :: castaway
  exact :: "string list"
  too_high :: "string list"
  too_low :: "string list"
  final_three :: "string list"
  winner :: "string option"
  scores :: "score_entry list"

datatype game_state =
    Season_Not_Started nat nat
  | Game_Snapshot game_snapshot

text \<open>The loop over the predictions made for the most recently eliminated castaway.\<close>

definition classify_step :: "int \<Rightarrow> prediction \<Rightarrow> string list \<times> string list \<times> string list
    \<Rightarrow> string list \<times> string list \<times> string list" where
  "classify_step actual_r row acc =
     (case acc of (ex, hi, lo) \<Rightarrow>
        let pr = predicted_rank row in
        if pr = actual_r then (ex @ [username row], hi, lo)
        else if pr > actual_r then (ex, hi @ [username row], lo)
        else (ex, hi, lo @ [username row]))"

definition get_game_state :: "castaway list \<Rightarrow> prediction list \<Rightarrow> py_error + game_state" where
  "get_game_state cast preds =
     (if cast = [] then Inl KeyError
      else
        let eliminated = filter (\<lambda>c. actual_rank c \<noteq> None) cast in
        if eliminated = [] then Inr (Season_Not_Started 0 (length cast))
        else
          let recent = last (sort_key (\<lambda>c. the (actual_rank c)) eliminated);
              n_elim = length eliminated;
              n_rem = length cast - n_elim;
              rows = filter (\<lambda>p. pred_player_name p = player_name recent) preds;
              actual_r = the (actual_rank recent);
              buckets = fold (classify_step actual_r) rows ([], [], []);
              final_3 = map player_name (filter is_final_three cast);
              winner_rows = map player_name (filter is_winner cast);
              winner_rows =
                (if winner_rows = [] \<and> eliminated \<noteq> [] then
                   let n_total = int (length cast);
                       top = filter (\<lambda>c. the (actual_rank c) = n_total) eliminated
                   in map player_name top
                 else winner_rows);
              win = (case winner_rows of [] \<Rightarrow> None | w # _ \<Rightarrow> Some w)
          in case calculate_scores cast preds of
               Inl e \<Rightarrow> Inl e
             | Inr sc \<Rightarrow>
                 Inr (Game_Snapshot
                   \<lparr>n_eliminated = n_elim, n_remaining = n_rem, most_recent = recent,
                    exact = fst buckets, too_high = fst (snd buckets),
                    too_low = snd (snd buckets), final_three = final_3, winner = win,
                    scores = sc\<rparr>))"

section \<open>Definitions taken from the specification\<close>

text \<open>
  The per-tuple rule as the specification words it (section 4.1, step 3): the minimum of
  the two ranks, one point for an exact pick, three for a predicted final-three castaway who
  is in the final three, five for a predicted winner who won, all added up. \<open>N\<close> is the
  number of castaways and \<open>N - 2\<close> the lowest final-three rank.
\<close>

definition tuple_points :: "int \<Rightarrow> bool \<Rightarrow> bool \<Rightarrow> int \<Rightarrow> int \<Rightarrow> int" where
  "tuple_points N f3 w a p =
     min a p
     + (if p = a then 1 else 0)
     + (if (f3 \<or> a \<ge> N - 2) \<and> p \<ge> N - 2 then 3 else 0)
     + (if (w \<or> a = N) \<and> p = N then 5 else 0)"

definition row_points :: "int \<Rightarrow> scored_row \<Rightarrow> int" where
  "row_points N r =
     tuple_points N (s_is_final_three r) (s_is_winner r) (s_actual_rank r) (s_predicted_rank r)"

text \<open>
  The replay in closed form. The gain of a group at a checkpoint is the sum of the per-tuple
  points of the group's tuples of that actual rank; the running totals are the partial sums
  of the gains; the series of a user pairs each checkpoint with the total reached there.
\<close>

definition checkpoint_gain :: "int \<Rightarrow> scored_row list \<Rightarrow> int \<Rightarrow> int" where
  "checkpoint_gain N grp rank =
     sum_list (map (row_points N) (filter (\<lambda>r. s_actual_rank r = rank) grp))"

fun running_totals :: "int \<Rightarrow> int list \<Rightarrow> int list" where
  "running_totals running [] = []"
| "running_totals running (g # gs) = (running + g) # running_totals (running + g) gs"

definition progression_point :: "string \<Rightarrow> int \<times> int \<Rightarrow> progression_row" where
  "progression_point user cs = \<lparr>Elimination = fst cs, Prog_Player = user, Prog_Score = snd cs\<rparr>"

definition user_series :: "int \<Rightarrow> scored_row list \<Rightarrow> int list \<Rightarrow> string \<Rightarrow> progression_row list" where
  "user_series N scored elim_order user =
     map (progression_point user)
       (zip elim_order
          (running_totals 0 (map (checkpoint_gain N (get_group scored user)) elim_order)))"

text \<open>
  \<^verbatim>\<open>elim_order = sorted(scored["actual_rank"].unique())\<close>, named, and the actual ranks
  of the eliminated castaways in table order.
\<close>

definition elim_order_of :: "scored_row list \<Rightarrow> int list" where
  "elim_order_of scored = sort (remdups (map s_actual_rank scored))"

definition eliminated_ranks :: "castaway list \<Rightarrow> int list" where
  "eliminated_ranks cast =
     concat (map (\<lambda>c. case actual_rank c of None \<Rightarrow> [] | Some a \<Rightarrow> [a]) cast)"

text \<open>
  A prediction references an unscored castaway when a castaway of that name has a null
  actual rank. The winner as the specification describes it (section 4.4): the flagged
  castaway, else the eliminated castaway of rank \<open>N\<close>, else none.
\<close>

definition references_unscored :: "castaway list \<Rightarrow> prediction \<Rightarrow> bool" where
  "references_unscored cast p \<longleftrightarrow>
     list_ex (\<lambda>c. player_name c = pred_player_name p \<and> actual_rank c = None) cast"

definition without_unscored :: "castaway list \<Rightarrow> prediction list \<Rightarrow> prediction list" where
  "without_unscored cast preds = filter (\<lambda>p. \<not> references_unscored cast p) preds"

definition expected_winner :: "castaway list \<Rightarrow> string option" where
  "expected_winner cast =
     (case find is_winner cast of
        Some c \<Rightarrow> Some (player_name c)
      | None \<Rightarrow>
          (case find (\<lambda>c. actual_rank c = Some (int (length cast))) cast of
             Some c \<Rightarrow> Some (player_name c)
           | None \<Rightarrow> None))"

text \<open>
  The consensus of the specification (section 4.3, step 4): the mean of the predicted ranks
  present for a castaway, undefined when there is none.
\<close>

definition mean_predicted_rank :: "prediction list \<Rightarrow> string \<Rightarrow> rat option" where
  "mean_predicted_rank preds name =
     (let ranks = map predicted_rank (filter (\<lambda>p. pred_player_name p = name) preds) in
      if ranks = [] then None
      else Some (of_int (sum_list ranks) / of_nat (length ranks)))"

definition has_prediction :: "prediction list \<Rightarrow> string \<Rightarrow> bool" where
  "has_prediction preds name \<longleftrightarrow> list_ex (\<lambda>p. pred_player_name p = name) preds"

section \<open>Example tables\<close>

text \<open>Scenario A of the specification: three castaways, one user, every pick exact.\<close>

definition scenario_a_cast :: "castaway list" where
  "scenario_a_cast =
     [\<lparr>player_name = ''Ana'', tribe = ''Vatu'', actual_rank = Some 1,
       is_final_three = False, is_winner = False\<rparr>,
      \<lparr>player_name = ''Ben'', tribe = ''Cila'', actual_rank = Some 2,
       is_final_three = False, is_winner = False\<rparr>,
      \<lparr>player_name = ''Cy'', tribe = ''Kalo'', actual_rank = Some 3,
       is_final_three = False, is_winner = False\<rparr>]"

definition scenario_a_preds :: "prediction list" where
  "scenario_a_preds =
     [\<lparr>username = ''pat'', pred_player_name = ''Ana'', predicted_rank = 1\<rparr>,
      \<lparr>username = ''pat'', pred_player_name = ''Ben'', predicted_rank = 2\<rparr>,
      \<lparr>username = ''pat'', pred_player_name = ''Cy'', predicted_rank = 3\<rparr>]"

text \<open>
  A season in progress: five castaways, three of them eliminated (the one of rank 5 being
  the winner by rank), one flagged for the final three but not yet ranked, one nobody has
  ranked; two users, one with a partial prediction set.
\<close>

definition season_cast :: "castaway list" where
  "season_cast =
     [\<lparr>player_name = ''Ana'', tribe = ''Vatu'', actual_rank = Some 1,
       is_final_three = False, is_winner = False\<rparr>,
      \<lparr>player_name = ''Eli'', tribe = ''Vatu'', actual_rank = None,
       is_final_three = False, is_winner = False\<rparr>,
      \<lparr>player_name = ''Ben'', tribe = ''Cila'', actual_rank = Some 2,
       is_final_three = False, is_winner = False\<rparr>,
      \<lparr>player_name = ''Cy'', tribe = ''Kalo'', actual_rank = None,
       is_final_three = True, is_winner = False\<rparr>,
      \<lparr>player_name = ''Dee'', tribe = ''Kalo'', actual_rank = Some 5,
       is_final_three = True, is_winner = False\<rparr>]"

definition season_preds :: "prediction list" where
  "season_preds =
     [\<lparr>username = ''bob'', pred_player_name = ''Ana'', predicted_rank = 2\<rparr>,
      \<lparr>username = ''amy'', pred_player_name = ''Ana'', predicted_rank = 1\<rparr>,
      \<lparr>username = ''amy'', pred_player_name = ''Ben'', predicted_rank = 3\<rparr>,
      \<lparr>username = ''amy'', pred_player_name = ''Cy'', predicted_rank = 2\<rparr>,
      \<lparr>username = ''amy'', pred_player_name = ''Dee'', predicted_rank = 5\<rparr>,
      \<lparr>username = ''bob'', pred_player_name = ''Dee'', predicted_rank = 5\<rparr>]"

text \<open>
  A season whose winner has been flagged before being ranked: no castaway has the rank
  \<open>N = 3\<close>, so only the flag names the winner.
\<close>

definition finale_cast :: "castaway list" where
  "finale_cast =
     [\<lparr>player_name = ''Ana'', tribe = ''Vatu'', actual_rank = Some 1,
       is_final_three = True, is_winner = False\<rparr>,
      \<lparr>player_name = ''Ben'', tribe = ''Cila'', actual_rank = Some 2,
       is_final_three = True, is_winner = False\<rparr>,
      \<lparr>player_name = ''Cy'', tribe = ''Kalo'', actual_rank = None,
       is_final_three = True, is_winner = True\<rparr>]"

definition finale_preds :: "prediction list" where
  "finale_preds =
     [\<lparr>username = ''pat'', pred_player_name = ''Ben'', predicted_rank = 3\<rparr>,
      \<lparr>username = ''pat'', pred_player_name = ''Cy'', predicted_rank = 2\<rparr>]"

text \<open>The store before seeding holds no castaway; one stored prediction for the second case.\<close>

definition orphan_preds :: "prediction list" where
  "orphan_preds = [\<lparr>username = ''pat'', pred_player_name = ''Ana'', predicted_rank = 1\<rparr>]"

text \<open>The standings of the season in progress.\<close>

definition season_rows :: "standings_row list" where
  "season_rows =
          [\<lparr>index_player_name = ''Ana'', row_tribe = ''Vatu'',
              row_actual_rank = Some 1, user_values = [Some 1, Some 2]\<rparr>,
           \<lparr>index_player_name = ''Cy'', row_tribe = ''Kalo'',
              row_actual_rank = None, user_values = [Some 2, None]\<rparr>,
           \<lparr>index_player_name = ''Ben'', row_tribe = ''Cila'',
              row_actual_rank = Some 2, user_values = [Some 3, None]\<rparr>,
           \<lparr>index_player_name = ''Dee'', row_tribe = ''Kalo'',
              row_actual_rank = Some 5, user_values = [Some 5, Some 5]\<rparr>,
           \<lparr>index_player_name = ''Eli'', row_tribe = ''Vatu'',
              row_actual_rank = None, user_values = [None, None]\<rparr>]"

section \<open>The join\<close>

lemma joined_row_sel [simp]:
  "s_username (joined_row p c a) = username p"
  "s_player_name (joined_row p c a) = pred_player_name p"
  "s_predicted_rank (joined_row p c a) = predicted_rank p"
  "s_actual_rank (joined_row p c a) = a"
  "s_is_final_three (joined_row p c a) = is_final_three c"
  "s_is_winner (joined_row p c a) = is_winner c"
  by (simp_all add: joined_row_def)

lemma join_row_None: "actual_rank c = None \<Longrightarrow> join_row p c = []"
  by (simp add: join_row_def)

lemma join_row_other: "player_name c \<noteq> pred_player_name p \<Longrightarrow> join_row p c = []"
  by (simp add: join_row_def)

lemma join_row_Some:
  "actual_rank c = Some a \<Longrightarrow> player_name c = pred_player_name p \<Longrightarrow>
   join_row p c = [joined_row p c a]"
  by (simp add: join_row_def)

text \<open>
  The joined tuples are exactly the pairs of a prediction and a castaway of the same name
  whose actual rank is set.
\<close>

lemma in_join_row:
  "r \<in> set (join_row p c) \<longleftrightarrow>
     player_name c = pred_player_name p \<and> (\<exists>a. actual_rank c = Some a \<and> r = joined_row p c a)"
proof (cases "player_name c = pred_player_name p")
  case False
  then show ?thesis by (simp add: join_row_other)
next
  case True
  show ?thesis
  proof (cases "actual_rank c")
    case None
    then show ?thesis by (simp add: join_row_None)
  next
    case (Some a)
    then show ?thesis using True by (simp add: join_row_Some)
  qed
qed

lemma in_merge_scored:
  "r \<in> set (merge_scored cast preds) \<longleftrightarrow>
     (\<exists>p \<in> set preds. \<exists>c \<in> set cast. player_name c = pred_player_name p \<and>
        (\<exists>a. actual_rank c = Some a \<and> r = joined_row p c a))"
  by (auto simp add: merge_scored_def in_join_row)

lemma distinct_groupby_keys: "distinct (groupby_keys scored)"
  by (simp add: groupby_keys_def)

lemma set_groupby_keys: "set (groupby_keys scored) = s_username ` set scored"
  by (simp add: groupby_keys_def)

lemma length_groupby_keys: "length (groupby_keys scored) = card (s_username ` set scored)"
  using distinct_card[OF distinct_groupby_keys, of scored] by (simp add: set_groupby_keys)

section \<open>The scoring loop\<close>

lemma score_step_points:
  "score_step n r (t, e) =
     (t + row_points n r, e + (if s_predicted_rank r = s_actual_rank r then 1 else 0))"
  by (simp add: score_step_def row_points_def tuple_points_def Let_def)

lemma fold_score_step:
  "fold (score_step n) rows (t, e) =
     (t + sum_list (map (row_points n) rows),
      e + int (length (filter (\<lambda>r. s_predicted_rank r = s_actual_rank r) rows)))"
  by (induction rows arbitrary: t e) (simp_all add: score_step_points)

lemma user_result_sel:
  "Player (user_result n scored u) = u"
  "Score (user_result n scored u) = sum_list (map (row_points n) (get_group scored u))"
  "Exact_Picks (user_result n scored u) =
     int (length (filter (\<lambda>r. s_predicted_rank r = s_actual_rank r) (get_group scored u)))"
  "Picks_Scored (user_result n scored u) = length (get_group scored u)"
  by (simp_all add: user_result_def Let_def fold_score_step)

lemma map_Player_results: "map Player (map (user_result n scored) ks) = ks"
  by (induction ks) (simp_all add: user_result_sel)

section \<open>Sorting and ranking the score list\<close>

lemma set_sort_values_desc: "set (sort_values_desc k xs) = set xs"
  by (simp add: sort_values_desc_def)

lemma length_sort_values_desc: "length (sort_values_desc k xs) = length xs"
  by (simp add: sort_values_desc_def)

lemma sorted_desc_sort_values: "sorted (rev (map k (sort_values_desc k xs)))"
  by (simp add: sort_values_desc_def rev_map[symmetric])

lemma distinct_map_sort_values_desc:
  "distinct (map f (sort_values_desc k xs)) = distinct (map f xs)"
  by (simp add: distinct_map sort_values_desc_def)

lemma insert_rank_map:
  "insert_rank df = map (\<lambda>i. (df ! i)\<lparr>Rank := int i + 1\<rparr>) [0..<length df]"
  by (auto simp add: insert_rank_def enumerate_eq_zip intro!: nth_equalityI)

lemma length_insert_rank: "length (insert_rank df) = length df"
  by (simp add: insert_rank_map)

lemma in_insert_rankD: "e \<in> set (insert_rank df) \<Longrightarrow> \<exists>r \<in> set df. \<exists>k. e = r\<lparr>Rank := k\<rparr>"
  by (auto simp: insert_rank_map)

lemma map_Rank_insert_rank: "map Rank (insert_rank df) = map int [1..<Suc (length df)]"
proof -
  have "map Rank (insert_rank df) = map (\<lambda>i. int i + 1) [0..<length df]"
    by (simp add: insert_rank_map)
  also have "\<dots> = map int (map Suc [0..<length df])" by simp
  also have "map Suc [0..<length df] = [1..<Suc (length df)]"
    using map_Suc_upt[of 0 "length df"] by simp
  finally show ?thesis .
qed

lemma map_Score_insert_rank: "map Score (insert_rank df) = map Score df"
  by (auto simp add: insert_rank_map intro!: nth_equalityI)

lemma map_Player_insert_rank: "map Player (insert_rank df) = map Player df"
  by (auto simp add: insert_rank_map intro!: nth_equalityI)

section \<open>The score list\<close>

text \<open>Whenever the function returns, its result is the ranked, sorted list of user results.\<close>

lemma calculate_scores_Inr:
  assumes "calculate_scores cast preds = Inr out"
  shows "out = insert_rank (sort_values_desc Score
           (map (user_result (int (length cast)) (merge_scored cast preds))
                (groupby_keys (merge_scored cast preds))))"
proof (cases "preds = []")
  case True
  then show ?thesis using assms
    by (simp add: calculate_scores_def merge_scored_def groupby_keys_def
        sort_values_desc_def insert_rank_def)
next
  case False
  then have "cast \<noteq> []" using assms by (auto simp: calculate_scores_def)
  then show ?thesis using assms False
    by (auto simp: calculate_scores_def Let_def sort_values_desc_def insert_rank_def
        split: if_splits)
qed

lemma calculate_scores_entries:
  assumes "calculate_scores cast preds = Inr out" "e \<in> set out"
  shows "\<exists>u k. u \<in> s_username ` set (merge_scored cast preds) \<and>
           e = (user_result (int (length cast)) (merge_scored cast preds) u)\<lparr>Rank := k\<rparr>"
proof -
  let ?sc = "merge_scored cast preds"
  let ?res = "map (user_result (int (length cast)) ?sc) (groupby_keys ?sc)"
  have "out = insert_rank (sort_values_desc Score ?res)"
    using assms(1) by (rule calculate_scores_Inr)
  with assms(2) have "e \<in> set (insert_rank (sort_values_desc Score ?res))" by simp
  from in_insert_rankD[OF this] obtain r k
    where r: "r \<in> set (sort_values_desc Score ?res)" and e: "e = r\<lparr>Rank := k\<rparr>"
    by blast
  from r have "r \<in> set ?res" by (simp only: set_sort_values_desc)
  then obtain u where u: "u \<in> set (groupby_keys ?sc)"
    and ru: "r = user_result (int (length cast)) ?sc u"
    by (auto simp only: set_map)
  have "u \<in> s_username ` set ?sc" using u by (simp only: set_groupby_keys)
  then show ?thesis using e ru by blast
qed

lemma calculate_scores_Score:
  assumes "calculate_scores cast preds = Inr out" and "e \<in> set out"
  shows "Score e = sum_list (map (row_points (int (length cast)))
                      (get_group (merge_scored cast preds) (Player e)))"
proof -
  from calculate_scores_entries[OF assms] obtain u k where
    e: "e = (user_result (int (length cast)) (merge_scored cast preds) u)\<lparr>Rank := k\<rparr>"
    by blast
  have "Player e = u" by (simp add: e user_result_sel)
  moreover have "Score e = sum_list (map (row_points (int (length cast)))
                      (get_group (merge_scored cast preds) u))"
    by (simp add: e user_result_sel)
  ultimately show ?thesis by simp
qed

lemma calculate_scores_Exact:
  assumes "calculate_scores cast preds = Inr out" and "e \<in> set out"
  shows "Exact_Picks e = int (length (filter (\<lambda>r. s_predicted_rank r = s_actual_rank r)
                      (get_group (merge_scored cast preds) (Player e))))"
proof -
  from calculate_scores_entries[OF assms] obtain u k where
    e: "e = (user_result (int (length cast)) (merge_scored cast preds) u)\<lparr>Rank := k\<rparr>"
    by blast
  have "Player e = u" by (simp add: e user_result_sel)
  moreover have "Exact_Picks e = int (length (filter (\<lambda>r. s_predicted_rank r = s_actual_rank r)
                      (get_group (merge_scored cast preds) u)))"
    by (simp add: e user_result_sel)
  ultimately show ?thesis by simp
qed

lemma calculate_scores_Player:
  assumes "calculate_scores cast preds = Inr out" and "e \<in> set out"
  shows "Player e \<in> s_username ` set (merge_scored cast preds)"
proof -
  from calculate_scores_entries[OF assms] obtain u k where
    e: "e = (user_result (int (length cast)) (merge_scored cast preds) u)\<lparr>Rank := k\<rparr>"
    and u: "u \<in> s_username ` set (merge_scored cast preds)"
    by blast
  have "Player e = u" by (simp add: e user_result_sel)
  then show ?thesis using u by simp
qed

lemma season_scores:
  "calculate_scores season_cast season_preds =
     Inr [\<lparr>Rank = 1, Player = ''amy'', Score = 18, Exact_Picks = 2, Picks_Scored = 3\<rparr>,
          \<lparr>Rank = 2, Player = ''bob'', Score = 15, Exact_Picks = 1, Picks_Scored = 2\<rparr>]"
  by code_simp

text \<open>
  Claim C9. When the score list has \<open>K\<close> rows (one per user with a joined tuple), the rank
  column is \<open>1, 2, \<dots>, K\<close> from the first row to the last, the totals do not increase along
  the rows, and no two rows share a rank; users of equal total get consecutive, different
  ranks.
\<close>

theorem C9_ranks_are_consecutive:
  assumes "calculate_scores cast preds = Inr out"
  shows "map Rank out = map int [1..<Suc (length out)]
       \<and> length out = card (s_username ` set (merge_scored cast preds))
       \<and> sorted (rev (map Score out))
       \<and> distinct (map Rank out)
       \<and> distinct (map Player out)"
proof -
  let ?sc = "merge_scored cast preds"
  let ?res = "map (user_result (int (length cast)) ?sc) (groupby_keys ?sc)"
  have out: "out = insert_rank (sort_values_desc Score ?res)"
    using assms by (rule calculate_scores_Inr)
  have r: "map Rank out = map int [1..<Suc (length out)]"
    by (simp add: out map_Rank_insert_rank length_insert_rank)
  have l: "length out = card (s_username ` set ?sc)"
    by (simp add: out length_insert_rank length_sort_values_desc length_groupby_keys)
  have s: "sorted (rev (map Score out))"
    by (simp only: out map_Score_insert_rank sorted_desc_sort_values)
  have "distinct (map int [1..<Suc (length out)])"
    by (simp add: distinct_map inj_on_def)
  then have d: "distinct (map Rank out)" using r by simp
  have "distinct (map Player ?res)" by (simp only: map_Player_results distinct_groupby_keys)
  then have p: "distinct (map Player out)"
    by (simp only: out map_Player_insert_rank distinct_map_sort_values_desc)
  from r l s d p show ?thesis by blast
qed

theorem C9_ranks_are_consecutive_witness:
  "calculate_scores season_cast season_preds =
     Inr [\<lparr>Rank = 1, Player = ''amy'', Score = 18, Exact_Picks = 2, Picks_Scored = 3\<rparr>,
          \<lparr>Rank = 2, Player = ''bob'', Score = 15, Exact_Picks = 1, Picks_Scored = 2\<rparr>]
   \<and> card (s_username ` set (merge_scored season_cast season_preds)) = 2"
proof -
  let ?out = "[\<lparr>Rank = 1, Player = ''amy'', Score = 18, Exact_Picks = 2, Picks_Scored = 3\<rparr>,
               \<lparr>Rank = 2, Player = ''bob'', Score = 15, Exact_Picks = 1, Picks_Scored = 2\<rparr>]"
  have h: "calculate_scores season_cast season_preds = Inr ?out" by (rule season_scores)
  from C9_ranks_are_consecutive[OF h] h show ?thesis by simp
qed

text \<open>
  Claim C6, as the code computes it. In scenario A every castaway is in the final three
  (\<open>N - 2 = 1\<close>), so the three final-three bonuses are worth 9 and the total is
  \<open>6 + 3 + 9 + 5 = 23\<close>, with three exact picks.
\<close>

theorem C6_scenario_a_total_is_23:
  "calculate_scores scenario_a_cast scenario_a_preds =
     Inr [\<lparr>Rank = 1, Player = ''pat'', Score = 23, Exact_Picks = 3, Picks_Scored = 3\<rparr>]"
  by code_simp

text \<open>Claim C6 as stated (a total of 20) does not hold of scenario A.\<close>

theorem C6_scenario_a_total_is_not_20:
  "calculate_scores scenario_a_cast scenario_a_preds \<noteq>
     Inr [\<lparr>Rank = 1, Player = ''pat'', Score = 20, Exact_Picks = 3, Picks_Scored = 3\<rparr>]"
  by code_simp

section \<open>The progression\<close>

text \<open>
  The replay applies the per-tuple rule of the specification at each checkpoint where the
  user has a tuple.
\<close>

lemma replay_step_points:
  "s_actual_rank row = rank \<Longrightarrow> replay_step n rank row running = running + row_points n row"
  by (auto simp add: replay_step_def row_points_def tuple_points_def Let_def)

lemma filter_single_gain:
  assumes "filter (\<lambda>r. s_actual_rank r = rank) grp = [row]"
  shows "s_actual_rank row = rank" and "checkpoint_gain n grp rank = row_points n row"
proof -
  have "row \<in> set (filter (\<lambda>r. s_actual_rank r = rank) grp)" by (simp add: assms)
  then show "s_actual_rank row = rank" by simp
  show "checkpoint_gain n grp rank = row_points n row" by (simp add: checkpoint_gain_def assms)
qed

text \<open>
  When the replay of one user returns, it has emitted one row per checkpoint, holding the
  running total after that checkpoint.
\<close>

lemma replay_Inr:
  "replay n grp user ranks running = Inr rows \<Longrightarrow>
   rows = map (progression_point user)
            (zip ranks (running_totals running (map (checkpoint_gain n grp) ranks)))"
proof (induction ranks arbitrary: running rows)
  case Nil
  then show ?case by simp
next
  case (Cons rank ranks)
  show ?case
  proof (cases "filter (\<lambda>r. s_actual_rank r = rank) grp")
    case Nil
    then have g: "checkpoint_gain n grp rank = 0" by (simp add: checkpoint_gain_def)
    from Cons.prems Nil obtain rest where
      rest: "replay n grp user ranks running = Inr rest"
      and rows: "rows = \<lparr>Elimination = rank, Prog_Player = user, Prog_Score = running\<rparr> # rest"
      by (auto split: sum.splits)
    from Cons.IH[OF rest] rows g show ?thesis by (simp add: progression_point_def)
  next
    case (Cons row more)
    note f = this
    show ?thesis
    proof (cases more)
      case Nil
      with f have single: "filter (\<lambda>r. s_actual_rank r = rank) grp = [row]" by simp
      note fs = filter_single_gain[OF single]
      let ?r' = "replay_step n rank row running"
      from Cons.prems single obtain rest where
        rest: "replay n grp user ranks ?r' = Inr rest"
        and rows: "rows = \<lparr>Elimination = rank, Prog_Player = user, Prog_Score = ?r'\<rparr> # rest"
        by (auto simp add: Let_def split: sum.splits)
      have r': "?r' = running + checkpoint_gain n grp rank"
        by (simp add: replay_step_points[OF fs(1)] fs(2))
      from Cons.IH[OF rest] rows r' show ?thesis by (simp add: progression_point_def)
    next
      case (Cons row2 more2)
      with f Cons.prems show ?thesis by simp
    qed
  qed
qed

lemma replay_users_Inr:
  "replay_users n scored elim_order users = Inr rows \<Longrightarrow>
   rows = concat (map (user_series n scored elim_order) users)"
proof (induction users arbitrary: rows)
  case Nil
  then show ?case by simp
next
  case (Cons user users)
  from Cons.prems obtain blk rest where
    blk: "replay n (get_group scored user) user elim_order 0 = Inr blk"
    and rest: "replay_users n scored elim_order users = Inr rest"
    and rows: "rows = blk @ rest"
    by (auto split: sum.splits)
  from replay_Inr[OF blk] Cons.IH[OF rest] rows show ?case
    by (simp add: user_series_def)
qed

lemma length_running_totals [simp]: "length (running_totals r gs) = length gs"
  by (induction gs arbitrary: r) simp_all

lemma running_totals_nth:
  "i < length gs \<Longrightarrow> running_totals r gs ! i = r + sum_list (take (Suc i) gs)"
proof (induction gs arbitrary: r i)
  case Nil
  then show ?case by simp
next
  case (Cons g gs)
  show ?case
  proof (cases i)
    case 0
    then show ?thesis by simp
  next
    case (Suc j)
    with Cons.prems have "j < length gs" by simp
    from Cons.IH[OF this, of "r + g"] Suc show ?thesis by simp
  qed
qed

lemma sum_list_take_mono:
  assumes "\<forall>g \<in> set gs. (0::int) \<le> g" and "i \<le> j"
  shows "sum_list (take i gs) \<le> sum_list (take j gs)"
proof -
  have "take j gs = take i gs @ take (j - i) (drop i gs)"
    using assms(2) by (metis le_add_diff_inverse take_add)
  moreover have "0 \<le> sum_list (take (j - i) (drop i gs))"
    using assms(1) by (intro sum_list_nonneg) (meson in_set_dropD in_set_takeD)
  ultimately show ?thesis by simp
qed

lemma tuple_points_nonneg: "0 \<le> a \<Longrightarrow> 0 \<le> p \<Longrightarrow> 0 \<le> tuple_points N f3 w a p"
  by (simp add: tuple_points_def)

lemma checkpoint_gain_nonneg:
  assumes "\<forall>r \<in> set grp. 0 \<le> s_actual_rank r \<and> 0 \<le> s_predicted_rank r"
  shows "0 \<le> checkpoint_gain N grp rank"
  unfolding checkpoint_gain_def
  by (rule sum_list_nonneg) (use assms in \<open>auto simp: row_points_def intro: tuple_points_nonneg\<close>)

lemma merge_scored_no_eliminated:
  assumes "filter (\<lambda>c. actual_rank c \<noteq> None) cast = []"
  shows "merge_scored cast preds = []"
proof -
  have "\<forall>c \<in> set cast. actual_rank c = None"
    using assms by (simp add: filter_empty_conv)
  then have "set (merge_scored cast preds) = {}"
    using in_merge_scored[of _ cast preds] by fastforce
  then show ?thesis by simp
qed

lemma merge_scored_no_preds: "merge_scored cast [] = []"
  by (simp add: merge_scored_def)

lemma compute_score_progression_Inr:
  assumes "compute_score_progression cast preds = Inr rows"
  shows "rows = concat (map (user_series (int (length cast)) (merge_scored cast preds)
                  (elim_order_of (merge_scored cast preds)))
                (groupby_keys (merge_scored cast preds)))"
proof -
  have c: "cast \<noteq> []" using assms by (auto simp: compute_score_progression_def)
  show ?thesis
  proof (cases "filter (\<lambda>c. actual_rank c \<noteq> None) cast = []")
    case True
    then have "rows = []" using assms c by (simp add: compute_score_progression_def)
    then show ?thesis by (simp add: merge_scored_no_eliminated[OF True] groupby_keys_def)
  next
    case False
    note el = this
    show ?thesis
    proof (cases "preds = []")
      case True
      then have "rows = []" using assms c el by (simp add: compute_score_progression_def)
      then show ?thesis by (simp add: True merge_scored_no_preds groupby_keys_def)
    next
      case False
      then have "replay_users (int (length cast)) (merge_scored cast preds)
                   (elim_order_of (merge_scored cast preds))
                   (groupby_keys (merge_scored cast preds)) = Inr rows"
        using assms c el by (simp add: compute_score_progression_def elim_order_of_def Let_def)
      then show ?thesis by (rule replay_users_Inr)
    qed
  qed
qed

lemma in_set_map_nth: "x \<in> set (map f xs) \<longleftrightarrow> (\<exists>i < length xs. x = f (xs ! i))"
proof
  assume "x \<in> set (map f xs)"
  then obtain i where "i < length (map f xs)" "map f xs ! i = x"
    unfolding in_set_conv_nth by blast
  then show "\<exists>i < length xs. x = f (xs ! i)" by auto
next
  assume "\<exists>i < length xs. x = f (xs ! i)"
  then obtain i where "i < length xs" "x = f (xs ! i)" by blast
  then show "x \<in> set (map f xs)" using nth_mem[of i xs] by simp
qed

lemma in_user_series:
  "pr \<in> set (user_series N scored eo u) \<longleftrightarrow>
     (\<exists>i < length eo. pr = \<lparr>Elimination = eo ! i, Prog_Player = u,
        Prog_Score = sum_list (take (Suc i) (map (checkpoint_gain N (get_group scored u)) eo))\<rparr>)"
proof -
  let ?gs = "map (checkpoint_gain N (get_group scored u)) eo"
  let ?z = "zip eo (running_totals 0 ?gs)"
  have len: "length ?z = length eo" by simp
  have nth: "\<And>i. i < length eo \<Longrightarrow> progression_point u (?z ! i) =
      \<lparr>Elimination = eo ! i, Prog_Player = u, Prog_Score = sum_list (take (Suc i) ?gs)\<rparr>"
    by (simp add: progression_point_def running_totals_nth)
  have "pr \<in> set (user_series N scored eo u) \<longleftrightarrow> (\<exists>i < length ?z. pr = progression_point u (?z ! i))"
    unfolding user_series_def by (rule in_set_map_nth)
  also have "\<dots> \<longleftrightarrow> (\<exists>i < length eo. pr = \<lparr>Elimination = eo ! i, Prog_Player = u,
        Prog_Score = sum_list (take (Suc i) ?gs)\<rparr>)"
    using nth len by metis
  finally show ?thesis .
qed

lemma sum_list_delta_notin:
  "a \<notin> set ks \<Longrightarrow> (\<Sum>k \<leftarrow> ks. if a = k then (v::'a::comm_monoid_add) else 0) = 0"
  by (induction ks) auto

lemma sum_list_delta:
  "distinct ks \<Longrightarrow> a \<in> set ks \<Longrightarrow> (\<Sum>k \<leftarrow> ks. if a = k then (v::'a::comm_monoid_add) else 0) = v"
  by (induction ks) (auto simp: sum_list_delta_notin)

lemma sum_list_by_key:
  assumes "distinct ks" and "f ` set xs \<subseteq> set ks"
  shows "(\<Sum>k \<leftarrow> ks. \<Sum>x \<leftarrow> filter (\<lambda>x. f x = k) xs. (g x :: 'a::comm_monoid_add)) = (\<Sum>x \<leftarrow> xs. g x)"
  using assms(2)
proof (induction xs)
  case Nil
  then show ?case by simp
next
  case (Cons x xs)
  have "(\<Sum>k \<leftarrow> ks. \<Sum>y \<leftarrow> filter (\<lambda>y. f y = k) (x # xs). g y)
      = (\<Sum>k \<leftarrow> ks. (if f x = k then g x else 0) + (\<Sum>y \<leftarrow> filter (\<lambda>y. f y = k) xs. g y))"
    by (rule arg_cong[where f = sum_list]) (rule map_cong, simp_all)
  also have "\<dots> = (\<Sum>k \<leftarrow> ks. if f x = k then g x else 0)
                  + (\<Sum>k \<leftarrow> ks. \<Sum>y \<leftarrow> filter (\<lambda>y. f y = k) xs. g y)"
    by (simp add: sum_list_addf)
  also have "(\<Sum>k \<leftarrow> ks. if f x = k then g x else 0) = g x"
    using Cons.prems assms(1) by (intro sum_list_delta) auto
  also have "(\<Sum>k \<leftarrow> ks. \<Sum>y \<leftarrow> filter (\<lambda>y. f y = k) xs. g y) = (\<Sum>y \<leftarrow> xs. g y)"
    using Cons.prems by (intro Cons.IH) auto
  finally show ?case by simp
qed

lemma distinct_elim_order: "distinct (elim_order_of scored)"
  by (simp add: elim_order_of_def)

lemma sorted_elim_order: "sorted (elim_order_of scored)"
  by (simp add: elim_order_of_def)

lemma set_elim_order: "set (elim_order_of scored) = s_actual_rank ` set scored"
  by (simp add: elim_order_of_def)

lemma total_gain_is_score:
  "sum_list (map (checkpoint_gain N (get_group scored u)) (elim_order_of scored))
     = sum_list (map (row_points N) (get_group scored u))"
proof -
  have "s_actual_rank ` set (get_group scored u) \<subseteq> set (elim_order_of scored)"
    by (auto simp: set_elim_order get_group_def)
  from sum_list_by_key[OF distinct_elim_order this, of "row_points N"]
  have "(\<Sum>k \<leftarrow> elim_order_of scored. checkpoint_gain N (get_group scored u) k)
          = sum_list (map (row_points N) (get_group scored u))"
    unfolding checkpoint_gain_def .
  then show ?thesis by simp
qed

lemma Max_sorted_last:
  assumes "sorted xs" "xs \<noteq> []"
  shows "Max (set xs) = last xs"
proof (rule Max_eqI)
  show "finite (set xs)" by simp
  show "last xs \<in> set xs" using assms(2) by simp
  fix y assume "y \<in> set xs"
  then obtain i where i: "i < length xs" "xs ! i = y" by (auto simp: in_set_conv_nth)
  have "xs ! i \<le> xs ! (length xs - 1)"
    using assms(1) i(1) by (intro sorted_nth_mono) auto
  then show "y \<le> last xs" using i(2) assms(2) by (simp add: last_conv_nth)
qed

lemma in_progression_rows:
  assumes "compute_score_progression cast preds = Inr rows"
  shows "pr \<in> set rows \<longleftrightarrow>
     (\<exists>u \<in> s_username ` set (merge_scored cast preds).
        pr \<in> set (user_series (int (length cast)) (merge_scored cast preds)
                     (elim_order_of (merge_scored cast preds)) u))"
  unfolding compute_score_progression_Inr[OF assms] by (auto simp: set_groupby_keys)

lemma user_series_Player:
  "pr \<in> set (user_series N scored eo u) \<Longrightarrow> Prog_Player pr = u"
  by (auto simp: in_user_series)

lemma Elimination_progression_rows:
  assumes "compute_score_progression cast preds = Inr rows" "rows \<noteq> []"
  shows "Elimination ` set rows = set (elim_order_of (merge_scored cast preds))"
proof -
  let ?sc = "merge_scored cast preds"
  let ?eo = "elim_order_of ?sc"
  from assms(2) obtain pr0 where "pr0 \<in> set rows" by (cases rows) auto
  then obtain u0 where u0: "u0 \<in> s_username ` set ?sc"
    using in_progression_rows[OF assms(1)] by blast
  show ?thesis
  proof (intro equalityI subsetI)
    fix k assume "k \<in> Elimination ` set rows"
    then obtain pr where "pr \<in> set rows" "k = Elimination pr" by blast
    then obtain u i where "i < length ?eo" "Elimination pr = ?eo ! i"
      using in_progression_rows[OF assms(1)] by (auto simp: in_user_series)
    then show "k \<in> set ?eo" using \<open>k = Elimination pr\<close> by simp
  next
    fix k assume "k \<in> set ?eo"
    then obtain i where i: "i < length ?eo" "?eo ! i = k" by (auto simp: in_set_conv_nth)
    let ?pr = "\<lparr>Elimination = ?eo ! i, Prog_Player = u0,
        Prog_Score = sum_list (take (Suc i) (map (checkpoint_gain (int (length cast)) (get_group ?sc u0)) ?eo))\<rparr>"
    have "?pr \<in> set (user_series (int (length cast)) ?sc ?eo u0)"
      using i(1) in_user_series by blast
    then have "?pr \<in> set rows" using u0 in_progression_rows[OF assms(1)] by blast
    then have "Elimination ?pr \<in> Elimination ` set rows" by (rule imageI)
    then show "k \<in> Elimination ` set rows" using i(2) by simp
  qed
qed

lemma merge_scored_nonneg:
  assumes "\<forall>c \<in> set cast. \<forall>a. actual_rank c = Some a \<longrightarrow> 0 \<le> a"
    and "\<forall>p \<in> set preds. 0 \<le> predicted_rank p"
    and "r \<in> set (merge_scored cast preds)"
  shows "0 \<le> s_actual_rank r \<and> 0 \<le> s_predicted_rank r"
proof -
  from assms(3) obtain p c a where "p \<in> set preds" "c \<in> set cast" "actual_rank c = Some a"
    "r = joined_row p c a"
    unfolding in_merge_scored by blast
  with assms(1,2) show ?thesis by auto
qed

lemma elim_order_index_mono:
  assumes "i < length (elim_order_of scored)" "j < length (elim_order_of scored)"
    and "elim_order_of scored ! i \<le> elim_order_of scored ! j"
  shows "i \<le> j"
proof (rule ccontr)
  let ?eo = "elim_order_of scored"
  assume "\<not> i \<le> j"
  then have ji: "j < i" by simp
  then have "?eo ! j \<le> ?eo ! i"
    using assms(1) sorted_elim_order[of scored] by (intro sorted_nth_mono) auto
  moreover have "?eo ! j \<noteq> ?eo ! i"
    using ji assms(1,2) distinct_elim_order[of scored] by (simp add: nth_eq_iff_index_eq)
  ultimately show False using assms(3) by simp
qed

text \<open>
  Claim C4. For every input of the data model, and every user of the progression output,
  the cumulative scores of the user do not decrease along ascending checkpoints: of two
  rows of the same user, the one with the larger checkpoint has the larger or equal score.
  The data model has all ranks in \<open>1..N\<close>; the proof needs only that no actual rank and no
  predicted rank is negative, which makes every increment non-negative.
\<close>

theorem C4_progression_monotone:
  assumes "compute_score_progression cast preds = Inr rows"
    and "\<forall>c \<in> set cast. \<forall>a. actual_rank c = Some a \<longrightarrow> 0 \<le> a"
    and "\<forall>p \<in> set preds. 0 \<le> predicted_rank p"
    and "x \<in> set rows" and "y \<in> set rows"
    and "Prog_Player x = Prog_Player y"
    and "Elimination x \<le> Elimination y"
  shows "Prog_Score x \<le> Prog_Score y"
proof -
  let ?sc = "merge_scored cast preds"
  let ?eo = "elim_order_of ?sc"
  let ?N = "int (length cast)"
  from assms(4) obtain u where xu: "x \<in> set (user_series ?N ?sc ?eo u)"
    using in_progression_rows[OF assms(1)] by blast
  from assms(5) obtain v where yv: "y \<in> set (user_series ?N ?sc ?eo v)"
    using in_progression_rows[OF assms(1)] by blast
  have "v = u" using user_series_Player[OF xu] user_series_Player[OF yv] assms(6) by simp
  let ?gs = "map (checkpoint_gain ?N (get_group ?sc u)) ?eo"
  from xu obtain i where i: "i < length ?eo"
    and x: "x = \<lparr>Elimination = ?eo ! i, Prog_Player = u, Prog_Score = sum_list (take (Suc i) ?gs)\<rparr>"
    unfolding in_user_series by blast
  from yv \<open>v = u\<close> obtain j where j: "j < length ?eo"
    and y: "y = \<lparr>Elimination = ?eo ! j, Prog_Player = u, Prog_Score = sum_list (take (Suc j) ?gs)\<rparr>"
    unfolding in_user_series by blast
  have "?eo ! i \<le> ?eo ! j" using assms(7) x y by simp
  then have ij: "Suc i \<le> Suc j" using elim_order_index_mono[OF i j] by simp
  have grp: "\<forall>r \<in> set (get_group ?sc u). 0 \<le> s_actual_rank r \<and> 0 \<le> s_predicted_rank r"
    using merge_scored_nonneg[OF assms(2,3)] by (simp add: get_group_def)
  have "\<forall>g \<in> set ?gs. 0 \<le> g"
    using checkpoint_gain_nonneg[OF grp] by auto
  from sum_list_take_mono[OF this ij] show ?thesis by (simp add: x y)
qed

lemma season_progression:
  "compute_score_progression season_cast season_preds =
     Inr [\<lparr>Elimination = 1, Prog_Player = ''amy'', Prog_Score = 2\<rparr>,
          \<lparr>Elimination = 2, Prog_Player = ''amy'', Prog_Score = 4\<rparr>,
          \<lparr>Elimination = 5, Prog_Player = ''amy'', Prog_Score = 18\<rparr>,
          \<lparr>Elimination = 1, Prog_Player = ''bob'', Prog_Score = 1\<rparr>,
          \<lparr>Elimination = 2, Prog_Player = ''bob'', Prog_Score = 1\<rparr>,
          \<lparr>Elimination = 5, Prog_Player = ''bob'', Prog_Score = 15\<rparr>]"
  by code_simp

lemma season_ranks_nonneg:
  "\<forall>c \<in> set season_cast. \<forall>a. actual_rank c = Some a \<longrightarrow> 0 \<le> a"
  "\<forall>p \<in> set season_preds. 0 \<le> predicted_rank p"
  by (simp_all add: season_cast_def season_preds_def)

theorem C4_progression_monotone_witness:
  "compute_score_progression season_cast season_preds =
     Inr [\<lparr>Elimination = 1, Prog_Player = ''amy'', Prog_Score = 2\<rparr>,
          \<lparr>Elimination = 2, Prog_Player = ''amy'', Prog_Score = 4\<rparr>,
          \<lparr>Elimination = 5, Prog_Player = ''amy'', Prog_Score = 18\<rparr>,
          \<lparr>Elimination = 1, Prog_Player = ''bob'', Prog_Score = 1\<rparr>,
          \<lparr>Elimination = 2, Prog_Player = ''bob'', Prog_Score = 1\<rparr>,
          \<lparr>Elimination = 5, Prog_Player = ''bob'', Prog_Score = 15\<rparr>]
   \<and> Prog_Score \<lparr>Elimination = 2, Prog_Player = ''amy'', Prog_Score = 4\<rparr>
       \<le> Prog_Score \<lparr>Elimination = 5, Prog_Player = ''amy'', Prog_Score = 18\<rparr>"
proof -
  let ?x = "\<lparr>Elimination = 2, Prog_Player = ''amy'', Prog_Score = 4\<rparr>"
  let ?y = "\<lparr>Elimination = 5, Prog_Player = ''amy'', Prog_Score = 18\<rparr>"
  note h = season_progression
  have "Prog_Score ?x \<le> Prog_Score ?y"
    by (rule C4_progression_monotone[OF h season_ranks_nonneg, of ?x ?y]) simp_all
  then show ?thesis using h by blast
qed

lemma insert_rank_keeps_rows:
  assumes "r \<in> set df"
  shows "\<exists>k. r\<lparr>Rank := k\<rparr> \<in> set (insert_rank df)"
proof -
  from assms obtain i where i: "i < length df" "df ! i = r" by (auto simp: in_set_conv_nth)
  have "(df ! i)\<lparr>Rank := int i + 1\<rparr> \<in> set (insert_rank df)"
    unfolding insert_rank_map in_set_map_nth using i(1) by auto
  then show ?thesis using i(2) by blast
qed

lemma calculate_scores_has_user:
  assumes "cast \<noteq> []" and "u \<in> s_username ` set (merge_scored cast preds)"
  shows "\<exists>out e. calculate_scores cast preds = Inr out \<and> e \<in> set out \<and> Player e = u"
proof -
  let ?sc = "merge_scored cast preds"
  let ?res = "map (user_result (int (length cast)) ?sc) (groupby_keys ?sc)"
  let ?out = "insert_rank (sort_values_desc Score ?res)"
  have "?sc \<noteq> []" using assms(2) by auto
  then have p: "preds \<noteq> []" using merge_scored_no_preds by blast
  have uk: "u \<in> set (groupby_keys ?sc)" using assms(2) by (simp only: set_groupby_keys)
  then have mem: "user_result (int (length cast)) ?sc u \<in> set ?res" by simp
  have kne: "groupby_keys ?sc \<noteq> []" using uk by auto
  then have ne: "?res \<noteq> []" by simp
  have "user_result (int (length cast)) ?sc u \<in> set (sort_values_desc Score ?res)"
    using mem by (simp only: set_sort_values_desc)
  from insert_rank_keeps_rows[OF this] obtain k where
    k: "(user_result (int (length cast)) ?sc u)\<lparr>Rank := k\<rparr> \<in> set ?out" by blast
  have "calculate_scores cast preds = Inr ?out"
    using p assms(1) ne by (simp add: calculate_scores_def Let_def)
  moreover have "Player ((user_result (int (length cast)) ?sc u)\<lparr>Rank := k\<rparr>) = u"
    by (simp add: user_result_sel)
  ultimately show ?thesis using k by blast
qed

lemma season_joined_tuple:
  "\<lparr>s_username = ''amy'', s_player_name = ''Ben'', s_predicted_rank = 3,
     s_actual_rank = 2, s_is_final_three = False, s_is_winner = False\<rparr>
   \<in> set (merge_scored season_cast season_preds)"
  by code_simp

text \<open>
  Claim C1. For a castaway table of \<open>N\<close> rows and any prediction table, every joined tuple
  (a prediction \<open>p\<close> of a user for a castaway whose actual rank \<open>a\<close> is set) puts its user
  into the score list, with the tuple in that user's group, and the total of every user in
  the list is the sum, over the joined tuples of that user, of
  \<open>min a p\<close>, plus 1 if \<open>p = a\<close>, plus 3 if (the castaway is flagged final three or
  \<open>a \<ge> N - 2\<close>) and \<open>p \<ge> N - 2\<close>, plus 5 if (the castaway is flagged winner or \<open>a = N\<close>) and
  \<open>p = N\<close>; the bonuses add up. The user's exact-pick counter is the number of joined tuples
  with \<open>p = a\<close>.
\<close>

theorem C1_score_is_sum_of_tuple_points:
  assumes "r \<in> set (merge_scored cast preds)"
  shows "\<exists>out e. calculate_scores cast preds = Inr out \<and> e \<in> set out
         \<and> Player e = s_username r
         \<and> r \<in> set (get_group (merge_scored cast preds) (Player e))
         \<and> (\<forall>e' \<in> set out.
               Score e' = (\<Sum>r' \<leftarrow> get_group (merge_scored cast preds) (Player e').
                      tuple_points (int (length cast)) (s_is_final_three r') (s_is_winner r')
                        (s_actual_rank r') (s_predicted_rank r'))
             \<and> Exact_Picks e' = int (length (filter (\<lambda>r'. s_predicted_rank r' = s_actual_rank r')
                      (get_group (merge_scored cast preds) (Player e')))))"
proof -
  from assms obtain c where "c \<in> set cast" unfolding in_merge_scored by blast
  then have c: "cast \<noteq> []" by auto
  have u: "s_username r \<in> s_username ` set (merge_scored cast preds)"
    using assms by (rule imageI)
  from calculate_scores_has_user[OF c u] obtain out e where
    out: "calculate_scores cast preds = Inr out" and e: "e \<in> set out" "Player e = s_username r"
    by blast
  have g: "r \<in> set (get_group (merge_scored cast preds) (Player e))"
    using assms e(2) by (simp add: get_group_def)
  have a: "\<forall>e' \<in> set out.
               Score e' = (\<Sum>r' \<leftarrow> get_group (merge_scored cast preds) (Player e').
                      tuple_points (int (length cast)) (s_is_final_three r') (s_is_winner r')
                        (s_actual_rank r') (s_predicted_rank r'))
             \<and> Exact_Picks e' = int (length (filter (\<lambda>r'. s_predicted_rank r' = s_actual_rank r')
                      (get_group (merge_scored cast preds) (Player e'))))"
  proof
    fix e' assume e': "e' \<in> set out"
    from calculate_scores_Score[OF out e'] calculate_scores_Exact[OF out e']
    show "Score e' = (\<Sum>r' \<leftarrow> get_group (merge_scored cast preds) (Player e').
                      tuple_points (int (length cast)) (s_is_final_three r') (s_is_winner r')
                        (s_actual_rank r') (s_predicted_rank r'))
             \<and> Exact_Picks e' = int (length (filter (\<lambda>r'. s_predicted_rank r' = s_actual_rank r')
                      (get_group (merge_scored cast preds) (Player e'))))"
      unfolding row_points_def by simp
  qed
  from out e g a show ?thesis by blast
qed

theorem C1_score_is_sum_of_tuple_points_witness:
  "calculate_scores season_cast season_preds =
     Inr [\<lparr>Rank = 1, Player = ''amy'', Score = 18, Exact_Picks = 2, Picks_Scored = 3\<rparr>,
          \<lparr>Rank = 2, Player = ''bob'', Score = 15, Exact_Picks = 1, Picks_Scored = 2\<rparr>]
   \<and> (\<Sum>r \<leftarrow> get_group (merge_scored season_cast season_preds) ''amy''.
         tuple_points 5 (s_is_final_three r) (s_is_winner r)
           (s_actual_rank r) (s_predicted_rank r)) = 18
   \<and> int (length (filter (\<lambda>r. s_predicted_rank r = s_actual_rank r)
         (get_group (merge_scored season_cast season_preds) ''amy''))) = 2"
proof -
  let ?e = "\<lparr>Rank = 1, Player = ''amy'', Score = 18, Exact_Picks = 2, Picks_Scored = 3\<rparr>"
  let ?out = "[?e, \<lparr>Rank = 2, Player = ''bob'', Score = 15, Exact_Picks = 1, Picks_Scored = 2\<rparr>]"
  have h: "calculate_scores season_cast season_preds = Inr ?out" by (rule season_scores)
  have n: "int (length season_cast) = 5" by (simp add: season_cast_def)
  from C1_score_is_sum_of_tuple_points[OF season_joined_tuple] obtain out where
    o: "calculate_scores season_cast season_preds = Inr out"
    and a: "\<forall>e' \<in> set out.
               Score e' = (\<Sum>r' \<leftarrow> get_group (merge_scored season_cast season_preds) (Player e').
                      tuple_points (int (length season_cast)) (s_is_final_three r') (s_is_winner r')
                        (s_actual_rank r') (s_predicted_rank r'))
             \<and> Exact_Picks e' = int (length (filter (\<lambda>r'. s_predicted_rank r' = s_actual_rank r')
                      (get_group (merge_scored season_cast season_preds) (Player e'))))"
    by blast
  from o h have "out = ?out" by simp
  then have "?e \<in> set out" by simp
  with a have "Score ?e = (\<Sum>r' \<leftarrow> get_group (merge_scored season_cast season_preds) (Player ?e).
                      tuple_points (int (length season_cast)) (s_is_final_three r') (s_is_winner r')
                        (s_actual_rank r') (s_predicted_rank r'))
             \<and> Exact_Picks ?e = int (length (filter (\<lambda>r'. s_predicted_rank r' = s_actual_rank r')
                      (get_group (merge_scored season_cast season_preds) (Player ?e))))"
    by (rule bspec)
  then show ?thesis using h by (simp add: n)
qed

text \<open>
  Claim C2. When the actual ranks of the eliminated castaways are pairwise different and
  the replay returns, every user of the progression output has a row at the maximal
  checkpoint, that user has a row in the score list, and the score of each progression row
  of the user at the maximal checkpoint is the user's total in the score list. (The proof
  does not use the first hypothesis: a rank that occurs twice in one user's group makes the
  replay raise instead of returning.)
\<close>

theorem C2_final_progression_equals_total:
  assumes "distinct (eliminated_ranks cast)"
    and "compute_score_progression cast preds = Inr rows"
    and "u \<in> Prog_Player ` set rows"
  shows "\<exists>out e. calculate_scores cast preds = Inr out \<and> e \<in> set out \<and> Player e = u
           \<and> (\<exists>pr \<in> set rows. Prog_Player pr = u
                  \<and> Elimination pr = Max (Elimination ` set rows))
           \<and> (\<forall>pr \<in> set rows. Prog_Player pr = u
                  \<and> Elimination pr = Max (Elimination ` set rows)
                  \<longrightarrow> Prog_Score pr = Score e)"
proof -
  let ?sc = "merge_scored cast preds"
  let ?eo = "elim_order_of ?sc"
  let ?N = "int (length cast)"
  let ?gs = "map (checkpoint_gain ?N (get_group ?sc u)) ?eo"
  have c: "cast \<noteq> []" using assms(2) by (auto simp: compute_score_progression_def)
  from assms(3) obtain pr0 where pr0: "pr0 \<in> set rows" "Prog_Player pr0 = u" by auto
  then have rows_ne: "rows \<noteq> []" by auto
  from pr0 have u: "u \<in> s_username ` set ?sc"
    using in_progression_rows[OF assms(2)] user_series_Player by blast
  then have "?sc \<noteq> []" by auto
  then have eo_ne: "?eo \<noteq> []" using set_elim_order[of ?sc] by (metis empty_is_image set_empty)
  have M: "Max (Elimination ` set rows) = last ?eo"
    using Elimination_progression_rows[OF assms(2) rows_ne] Max_sorted_last[OF sorted_elim_order eo_ne]
    by simp
  let ?n = "length ?eo - 1"
  have n: "?n < length ?eo" using eo_ne by simp
  have last: "last ?eo = ?eo ! ?n" using eo_ne by (rule last_conv_nth)
  have total: "sum_list (take (Suc ?n) ?gs) = sum_list (map (row_points ?N) (get_group ?sc u))"
    using n total_gain_is_score[of ?N ?sc u] by simp
  from calculate_scores_has_user[OF c u] obtain out e where
    out: "calculate_scores cast preds = Inr out" and e: "e \<in> set out" "Player e = u" by blast
  have score: "Score e = sum_list (map (row_points ?N) (get_group ?sc u))"
    using calculate_scores_Score[OF out e(1)] e(2) by simp
  let ?pr = "\<lparr>Elimination = ?eo ! ?n, Prog_Player = u, Prog_Score = sum_list (take (Suc ?n) ?gs)\<rparr>"
  have "?pr \<in> set (user_series ?N ?sc ?eo u)" using n in_user_series by blast
  then have "?pr \<in> set rows" using u in_progression_rows[OF assms(2)] by blast
  moreover have "Prog_Player ?pr = u" "Elimination ?pr = Max (Elimination ` set rows)"
    by (simp_all add: M last)
  ultimately have ex: "\<exists>pr \<in> set rows. Prog_Player pr = u \<and> Elimination pr = Max (Elimination ` set rows)"
    by blast
  have all: "\<forall>pr \<in> set rows. Prog_Player pr = u \<and> Elimination pr = Max (Elimination ` set rows)
                  \<longrightarrow> Prog_Score pr = Score e"
  proof (intro ballI impI)
    fix pr assume pr: "pr \<in> set rows" and h: "Prog_Player pr = u \<and> Elimination pr = Max (Elimination ` set rows)"
    from pr obtain v where v: "pr \<in> set (user_series ?N ?sc ?eo v)"
      using in_progression_rows[OF assms(2)] by blast
    have "v = u" using user_series_Player[OF v] h by simp
    with v obtain i where i: "i < length ?eo"
      and p: "pr = \<lparr>Elimination = ?eo ! i, Prog_Player = u, Prog_Score = sum_list (take (Suc i) ?gs)\<rparr>"
      unfolding in_user_series by blast
    have "?eo ! i = ?eo ! ?n" using h p M last by simp
    then have "i = ?n" using i n distinct_elim_order[of ?sc] by (simp add: nth_eq_iff_index_eq)
    then show "Prog_Score pr = Score e" using p total score by simp
  qed
  from out e ex all show ?thesis by blast
qed

lemma season_ranks_distinct: "distinct (eliminated_ranks season_cast)"
  by (simp add: eliminated_ranks_def season_cast_def)

theorem C2_final_progression_equals_total_witness:
  "distinct (eliminated_ranks season_cast)
   \<and> compute_score_progression season_cast season_preds =
     Inr [\<lparr>Elimination = 1, Prog_Player = ''amy'', Prog_Score = 2\<rparr>,
          \<lparr>Elimination = 2, Prog_Player = ''amy'', Prog_Score = 4\<rparr>,
          \<lparr>Elimination = 5, Prog_Player = ''amy'', Prog_Score = 18\<rparr>,
          \<lparr>Elimination = 1, Prog_Player = ''bob'', Prog_Score = 1\<rparr>,
          \<lparr>Elimination = 2, Prog_Player = ''bob'', Prog_Score = 1\<rparr>,
          \<lparr>Elimination = 5, Prog_Player = ''bob'', Prog_Score = 15\<rparr>]
   \<and> (\<exists>out e. calculate_scores season_cast season_preds = Inr out \<and> e \<in> set out
         \<and> Player e = ''bob'' \<and> Score e = 15)"
proof -
  let ?rows = "[\<lparr>Elimination = 1, Prog_Player = ''amy'', Prog_Score = 2\<rparr>,
          \<lparr>Elimination = 2, Prog_Player = ''amy'', Prog_Score = 4\<rparr>,
          \<lparr>Elimination = 5, Prog_Player = ''amy'', Prog_Score = 18\<rparr>,
          \<lparr>Elimination = 1, Prog_Player = ''bob'', Prog_Score = 1\<rparr>,
          \<lparr>Elimination = 2, Prog_Player = ''bob'', Prog_Score = 1\<rparr>,
          \<lparr>Elimination = 5, Prog_Player = ''bob'', Prog_Score = 15\<rparr>]"
  let ?pr = "\<lparr>Elimination = 5, Prog_Player = ''bob'', Prog_Score = 15\<rparr>"
  note h = season_progression
  have u: "''bob'' \<in> Prog_Player ` set ?rows" by simp
  have M: "Max (Elimination ` set ?rows) = 5" by simp
  from C2_final_progression_equals_total[OF season_ranks_distinct h u]
  obtain out e where o: "calculate_scores season_cast season_preds = Inr out" "e \<in> set out"
    "Player e = ''bob''"
    and a: "\<forall>pr \<in> set ?rows. Prog_Player pr = ''bob''
                  \<and> Elimination pr = Max (Elimination ` set ?rows)
                  \<longrightarrow> Prog_Score pr = Score e"
    by blast
  have "?pr \<in> set ?rows" by simp
  with a M have "Prog_Score ?pr = Score e" by (metis progression_row.select_convs(1,2))
  then have "Score e = 15" by simp
  with o season_ranks_distinct h show ?thesis by blast
qed

section \<open>Unscored predictions, empty tables and the game state\<close>

lemma concat_map_filter_irrelevant:
  "\<forall>x \<in> set xs. \<not> P x \<longrightarrow> f x = [] \<Longrightarrow> concat (map f (filter P xs)) = concat (map f xs)"
  by (induction xs) simp_all

lemma concat_all_empty: "\<forall>x \<in> set xs. f x = [] \<Longrightarrow> concat (map f xs) = []"
  by (induction xs) simp_all

lemma unscored_joins_nothing:
  assumes "distinct (map player_name cast)" and "references_unscored cast p"
  shows "concat (map (join_row p) cast) = []"
proof (rule concat_all_empty, rule ballI)
  fix c assume c: "c \<in> set cast"
  from assms(2) obtain c0 where c0: "c0 \<in> set cast" "player_name c0 = pred_player_name p"
    "actual_rank c0 = None"
    unfolding references_unscored_def list_ex_iff by blast
  show "join_row p c = []"
  proof (cases "player_name c = pred_player_name p")
    case False
    then show ?thesis by (rule join_row_other)
  next
    case True
    have "inj_on player_name (set cast)" using assms(1) by (simp add: distinct_map)
    moreover have "player_name c = player_name c0" using True c0(2) by simp
    ultimately have "c = c0" using c c0(1) by (rule inj_onD)
    then show ?thesis using c0(3) by (simp add: join_row_None)
  qed
qed

lemma merge_scored_without_unscored:
  assumes "distinct (map player_name cast)"
  shows "merge_scored cast (without_unscored cast preds) = merge_scored cast preds"
  unfolding merge_scored_def without_unscored_def
  by (rule concat_map_filter_irrelevant) (use unscored_joins_nothing[OF assms] in auto)

lemma without_unscored_no_cast: "without_unscored [] preds = preds"
  by (simp add: without_unscored_def references_unscored_def)

text \<open>
  Claim C5. For a castaway table (its rows identified by \<^verbatim>\<open>player_name\<close>, the unique key
  of the store) and any prediction table, removing every prediction that references a
  castaway whose actual rank is null leaves the result of the scoring function unchanged,
  be it a score list or an exception.
\<close>

theorem C5_unscored_predictions_do_not_interfere:
  assumes "distinct (map player_name cast)"
  shows "calculate_scores cast (without_unscored cast preds) = calculate_scores cast preds"
proof (cases "cast = []")
  case True
  then show ?thesis by (simp add: without_unscored_no_cast)
next
  case False
  note m = merge_scored_without_unscored[OF assms, of preds]
  show ?thesis
  proof (cases "preds = []")
    case True
    then show ?thesis by (simp add: without_unscored_def)
  next
    case False
    note p = this
    show ?thesis
    proof (cases "without_unscored cast preds = []")
      case True
      then have "merge_scored cast preds = []" using m by (simp add: merge_scored_def)
      then show ?thesis using True p \<open>cast \<noteq> []\<close>
        by (simp add: calculate_scores_def groupby_keys_def)
    next
      case False
      then show ?thesis using p \<open>cast \<noteq> []\<close> m
        by (simp add: calculate_scores_def)
    qed
  qed
qed

lemma season_names_distinct: "distinct (map player_name season_cast)"
  by (simp add: season_cast_def)

lemma season_without_unscored:
  "without_unscored season_cast season_preds =
     [\<lparr>username = ''bob'', pred_player_name = ''Ana'', predicted_rank = 2\<rparr>,
      \<lparr>username = ''amy'', pred_player_name = ''Ana'', predicted_rank = 1\<rparr>,
      \<lparr>username = ''amy'', pred_player_name = ''Ben'', predicted_rank = 3\<rparr>,
      \<lparr>username = ''amy'', pred_player_name = ''Dee'', predicted_rank = 5\<rparr>,
      \<lparr>username = ''bob'', pred_player_name = ''Dee'', predicted_rank = 5\<rparr>]"
  by code_simp

theorem C5_unscored_predictions_do_not_interfere_witness:
  "distinct (map player_name season_cast)
   \<and> without_unscored season_cast season_preds =
     [\<lparr>username = ''bob'', pred_player_name = ''Ana'', predicted_rank = 2\<rparr>,
      \<lparr>username = ''amy'', pred_player_name = ''Ana'', predicted_rank = 1\<rparr>,
      \<lparr>username = ''amy'', pred_player_name = ''Ben'', predicted_rank = 3\<rparr>,
      \<lparr>username = ''amy'', pred_player_name = ''Dee'', predicted_rank = 5\<rparr>,
      \<lparr>username = ''bob'', pred_player_name = ''Dee'', predicted_rank = 5\<rparr>]
   \<and> calculate_scores season_cast (without_unscored season_cast season_preds) =
     Inr [\<lparr>Rank = 1, Player = ''amy'', Score = 18, Exact_Picks = 2, Picks_Scored = 3\<rparr>,
          \<lparr>Rank = 2, Player = ''bob'', Score = 15, Exact_Picks = 1, Picks_Scored = 2\<rparr>]"
  using C5_unscored_predictions_do_not_interfere[OF season_names_distinct, of season_preds]
    season_names_distinct season_without_unscored season_scores by simp

lemma first_of_filter:
  "(case map f (filter P xs) of [] \<Rightarrow> None | w # _ \<Rightarrow> Some w) = map_option f (find P xs)"
  by (induction xs) simp_all

lemma filter_eliminated_rank:
  "filter (\<lambda>c. the (actual_rank c) = n) (filter (\<lambda>c. actual_rank c \<noteq> None) cast)
     = filter (\<lambda>c. actual_rank c = Some n) cast"
proof -
  have "(x \<noteq> None \<and> the x = n) = (x = Some n)" for x :: "int option"
    by (cases x) auto
  then show ?thesis by (simp only: filter_filter)
qed

lemma get_game_state_snapshot:
  assumes "get_game_state cast preds = Inr (Game_Snapshot s)"
  shows "final_three s = map player_name (filter is_final_three cast)"
    and "winner s =
      (case (if map player_name (filter is_winner cast) = []
             then map player_name (filter (\<lambda>c. actual_rank c = Some (int (length cast))) cast)
             else map player_name (filter is_winner cast)) of
         [] \<Rightarrow> None | w # _ \<Rightarrow> Some w)"
proof -
  let ?el = "filter (\<lambda>c. actual_rank c \<noteq> None) cast"
  have c: "cast \<noteq> []" using assms by (auto simp: get_game_state_def)
  have e: "?el \<noteq> []"
    using assms c by (auto simp: get_game_state_def Let_def simp del: not_None_eq split: if_splits)
  obtain sc where sc: "calculate_scores cast preds = Inr sc"
    using assms c e
    by (auto simp: get_game_state_def Let_def simp del: not_None_eq split: sum.splits)
  have top: "filter (\<lambda>c. the (actual_rank c) = int (length cast)) ?el
               = filter (\<lambda>c. actual_rank c = Some (int (length cast))) cast"
    by (rule filter_eliminated_rank)
  from assms have "Inr (Game_Snapshot s) = get_game_state cast preds" by simp
  also have "\<dots> = Inr (Game_Snapshot
      \<lparr>n_eliminated = length ?el, n_remaining = length cast - length ?el,
       most_recent = last (sort_key (\<lambda>c. the (actual_rank c)) ?el),
       exact = fst (fold (classify_step (the (actual_rank (last (sort_key (\<lambda>c. the (actual_rank c)) ?el)))))
                 (filter (\<lambda>p. pred_player_name p = player_name (last (sort_key (\<lambda>c. the (actual_rank c)) ?el))) preds)
                 ([], [], [])),
       too_high = fst (snd (fold (classify_step (the (actual_rank (last (sort_key (\<lambda>c. the (actual_rank c)) ?el)))))
                 (filter (\<lambda>p. pred_player_name p = player_name (last (sort_key (\<lambda>c. the (actual_rank c)) ?el))) preds)
                 ([], [], []))),
       too_low = snd (snd (fold (classify_step (the (actual_rank (last (sort_key (\<lambda>c. the (actual_rank c)) ?el)))))
                 (filter (\<lambda>p. pred_player_name p = player_name (last (sort_key (\<lambda>c. the (actual_rank c)) ?el))) preds)
                 ([], [], []))),
       final_three = map player_name (filter is_final_three cast),
       winner = (case (if map player_name (filter is_winner cast) = []
             then map player_name (filter (\<lambda>c. actual_rank c = Some (int (length cast))) cast)
             else map player_name (filter is_winner cast)) of
         [] \<Rightarrow> None | w # _ \<Rightarrow> Some w),
       scores = sc\<rparr>)"
    unfolding get_game_state_def Let_def top using c e sc by (simp del: not_None_eq)
  finally have s: "s = \<lparr>n_eliminated = length ?el, n_remaining = length cast - length ?el,
       most_recent = last (sort_key (\<lambda>c. the (actual_rank c)) ?el),
       exact = fst (fold (classify_step (the (actual_rank (last (sort_key (\<lambda>c. the (actual_rank c)) ?el)))))
                 (filter (\<lambda>p. pred_player_name p = player_name (last (sort_key (\<lambda>c. the (actual_rank c)) ?el))) preds)
                 ([], [], [])),
       too_high = fst (snd (fold (classify_step (the (actual_rank (last (sort_key (\<lambda>c. the (actual_rank c)) ?el)))))
                 (filter (\<lambda>p. pred_player_name p = player_name (last (sort_key (\<lambda>c. the (actual_rank c)) ?el))) preds)
                 ([], [], []))),
       too_low = snd (snd (fold (classify_step (the (actual_rank (last (sort_key (\<lambda>c. the (actual_rank c)) ?el)))))
                 (filter (\<lambda>p. pred_player_name p = player_name (last (sort_key (\<lambda>c. the (actual_rank c)) ?el))) preds)
                 ([], [], []))),
       final_three = map player_name (filter is_final_three cast),
       winner = (case (if map player_name (filter is_winner cast) = []
             then map player_name (filter (\<lambda>c. actual_rank c = Some (int (length cast))) cast)
             else map player_name (filter is_winner cast)) of
         [] \<Rightarrow> None | w # _ \<Rightarrow> Some w),
       scores = sc\<rparr>"
    by (simp only: sum.inject game_state.inject)
  show "final_three s = map player_name (filter is_final_three cast)"
    by (subst s) (simp only: game_snapshot.select_convs)
  show "winner s =
      (case (if map player_name (filter is_winner cast) = []
             then map player_name (filter (\<lambda>c. actual_rank c = Some (int (length cast))) cast)
             else map player_name (filter is_winner cast)) of
         [] \<Rightarrow> None | w # _ \<Rightarrow> Some w)"
    by (subst s) (simp only: game_snapshot.select_convs)
qed

lemma calculate_scores_returns:
  assumes "cast \<noteq> []"
  shows "\<exists>sc. calculate_scores cast preds = Inr sc"
  using assms by (simp add: calculate_scores_def Let_def)

lemma get_game_state_returns:
  assumes "c \<in> set cast" and "actual_rank c = Some a"
  shows "\<exists>s. get_game_state cast preds = Inr (Game_Snapshot s)"
proof -
  let ?el = "filter (\<lambda>c. actual_rank c \<noteq> None) cast"
  have ne: "cast \<noteq> []" using assms(1) by auto
  have e: "?el \<noteq> []"
  proof
    assume "?el = []"
    then have "\<forall>x \<in> set cast. \<not> actual_rank x \<noteq> None"
      by (simp only: filter_empty_conv)
    with assms show False by auto
  qed
  from calculate_scores_returns[OF ne] obtain sc where
    sc: "calculate_scores cast preds = Inr sc" by blast
  show ?thesis
    unfolding get_game_state_def Let_def using ne e sc by (simp del: not_None_eq)
qed

text \<open>
  Claim C8. Once a castaway has been eliminated, the function returns the full snapshot, in
  which the winner is the (first) castaway flagged \<^verbatim>\<open>is_winner\<close>; when no castaway has
  the flag, it is the (first) eliminated castaway whose actual rank is the number of
  castaways; otherwise it is null. The final-three list holds exactly the castaways flagged
  \<^verbatim>\<open>is_final_three\<close>, in table order, whatever the ranks are. (Before the first
  elimination the function returns the three-key dictionary of section 4.4, which has
  neither field.)
\<close>

theorem C8_winner_and_final_three:
  assumes "c \<in> set cast" and "actual_rank c = Some a"
  shows "\<exists>s. get_game_state cast preds = Inr (Game_Snapshot s)
           \<and> winner s = expected_winner cast
           \<and> final_three s = map player_name (filter is_final_three cast)"
proof -
  from get_game_state_returns[OF assms] obtain s where
    s: "get_game_state cast preds = Inr (Game_Snapshot s)" by blast
  note g = get_game_state_snapshot[OF s]
  have "winner s = expected_winner cast"
  proof (cases "find is_winner cast")
    case None
    then have "map player_name (filter is_winner cast) = []"
      by (simp add: find_None_iff filter_empty_conv)
    then show ?thesis using g(2) None
      by (simp add: expected_winner_def first_of_filter option.map_sel split: option.splits)
  next
    case (Some w)
    then have "filter is_winner cast \<noteq> []"
      by (metis filter_empty_conv find_None_iff option.distinct(1))
    then show ?thesis using g(2) Some first_of_filter[of player_name is_winner cast]
      by (simp add: expected_winner_def)
  qed
  with s g(1) show ?thesis by blast
qed

lemma finale_game_state:
  "get_game_state finale_cast finale_preds =
     Inr (Game_Snapshot
       \<lparr>n_eliminated = 2, n_remaining = 1,
          most_recent =
            \<lparr>player_name = ''Ben'', tribe = ''Cila'', actual_rank = Some 2,
               is_final_three = True, is_winner = False\<rparr>,
          exact = [], too_high = [''pat''], too_low = [],
          final_three = [''Ana'', ''Ben'', ''Cy''], winner = Some ''Cy'',
          scores =
            [\<lparr>Rank = 1, Player = ''pat'', Score = 5, Exact_Picks = 0, Picks_Scored = 1\<rparr>]\<rparr>)"
  by code_simp

lemma finale_eliminated:
  "\<lparr>player_name = ''Ana'', tribe = ''Vatu'', actual_rank = Some 1,
     is_final_three = True, is_winner = False\<rparr> \<in> set finale_cast"
  by (simp add: finale_cast_def)

theorem C8_winner_and_final_three_witness:
  "get_game_state finale_cast finale_preds =
     Inr (Game_Snapshot
       \<lparr>n_eliminated = 2, n_remaining = 1,
          most_recent =
            \<lparr>player_name = ''Ben'', tribe = ''Cila'', actual_rank = Some 2,
               is_final_three = True, is_winner = False\<rparr>,
          exact = [], too_high = [''pat''], too_low = [],
          final_three = [''Ana'', ''Ben'', ''Cy''], winner = Some ''Cy'',
          scores =
            [\<lparr>Rank = 1, Player = ''pat'', Score = 5, Exact_Picks = 0, Picks_Scored = 1\<rparr>]\<rparr>)
   \<and> expected_winner finale_cast = Some ''Cy''
   \<and> map player_name (filter is_final_three finale_cast) = [''Ana'', ''Ben'', ''Cy'']"
proof -
  from C8_winner_and_final_three[OF finale_eliminated, of 1 finale_preds] obtain s where
    s: "get_game_state finale_cast finale_preds = Inr (Game_Snapshot s)"
    and w: "winner s = expected_winner finale_cast"
    and f: "final_three s = map player_name (filter is_final_three finale_cast)"
    by auto
  from s finale_game_state have "s =
       \<lparr>n_eliminated = 2, n_remaining = 1,
          most_recent =
            \<lparr>player_name = ''Ben'', tribe = ''Cila'', actual_rank = Some 2,
               is_final_three = True, is_winner = False\<rparr>,
          exact = [], too_high = [''pat''], too_low = [],
          final_three = [''Ana'', ''Ben'', ''Cy''], winner = Some ''Cy'',
          scores =
            [\<lparr>Rank = 1, Player = ''pat'', Score = 5, Exact_Picks = 0, Picks_Scored = 1\<rparr>]\<rparr>"
    by simp
  then have "winner s = Some ''Cy''" "final_three s = [''Ana'', ''Ben'', ''Cy'']"
    by simp_all
  with w f finale_game_state show ?thesis by simp
qed

text \<open>
  What the three functions do on an empty castaway table: the frame built from an empty
  query result has no column, so the first access to a castaway column raises.
\<close>

lemma empty_castaways_results:
  "calculate_scores [] preds = (if preds = [] then Inr [] else Inl KeyError)
   \<and> load_all_predictions [] preds
       = Inl (if preds \<noteq> [] \<and> pivot_duplicates preds then ValueError else KeyError)
   \<and> get_game_state [] preds = Inl KeyError"
  by (simp add: calculate_scores_def load_all_predictions_def get_game_state_def)

text \<open>
  Claim C3 (no castaways: empty score list, empty standings, \<^verbatim>\<open>n_remaining = 0\<close>, no
  error) is what the guards of the source aim at: \<^verbatim>\<open>if eliminated.empty\<close> returns
  \<^verbatim>\<open>len(cast_df)\<close> as \<^verbatim>\<open>n_remaining\<close>, \<^verbatim>\<open>if not results\<close> and the test for an empty
  prediction table return empty frames. The code misses it: on the store before seeding the
  standings and the game state raise \<^verbatim>\<open>KeyError\<close>, and with one stored prediction the
  scoring function raises as well.
\<close>

theorem C3_empty_castaways_raise:
  "calculate_scores [] [] = Inr []
   \<and> load_all_predictions [] [] = Inl KeyError
   \<and> get_game_state [] [] = Inl KeyError
   \<and> calculate_scores [] orphan_preds = Inl KeyError
   \<and> load_all_predictions [] orphan_preds = Inl KeyError
   \<and> get_game_state [] orphan_preds = Inl KeyError"
  by (simp add: calculate_scores_def load_all_predictions_def get_game_state_def
      orphan_preds_def pivot_duplicates_def)

lemma season_game_state:
  "get_game_state season_cast season_preds =
     Inr (Game_Snapshot
       \<lparr>n_eliminated = 3, n_remaining = 2,
          most_recent =
            \<lparr>player_name = ''Dee'', tribe = ''Kalo'', actual_rank = Some 5,
               is_final_three = True, is_winner = False\<rparr>,
          exact = [''amy'', ''bob''], too_high = [], too_low = [],
          final_three = [''Cy'', ''Dee''], winner = Some ''Dee'',
          scores =
            [\<lparr>Rank = 1, Player = ''amy'', Score = 18, Exact_Picks = 2, Picks_Scored = 3\<rparr>,
             \<lparr>Rank = 2, Player = ''bob'', Score = 15, Exact_Picks = 1, Picks_Scored = 2\<rparr>]\<rparr>)"
  by code_simp

section \<open>The standings\<close>

lemma filter_distinct_key:
  "distinct (map k xs) \<Longrightarrow> length (filter (\<lambda>x. k x = v) xs) \<le> 1"
proof (induction xs)
  case Nil
  then show ?case by simp
next
  case (Cons x xs)
  show ?case
  proof (cases "k x = v")
    case True
    then have "v \<notin> k ` set xs" using Cons.prems by auto
    then have "filter (\<lambda>x. k x = v) xs = []" by (auto simp: filter_empty_conv)
    then show ?thesis using True by simp
  next
    case False
    then show ?thesis using Cons by simp
  qed
qed

lemma pivot_cell:
  assumes "\<not> pivot_duplicates preds"
  shows "(case pivot_value preds name u of None \<Rightarrow> [] | Some x \<Rightarrow> [x])
       = map predicted_rank
           (filter (\<lambda>p. username p = u) (filter (\<lambda>p. pred_player_name p = name) preds))"
proof -
  let ?f = "filter (\<lambda>p. pred_player_name p = name \<and> username p = u) preds"
  have "distinct (map (\<lambda>p. (pred_player_name p, username p)) preds)"
    using assms by (simp add: pivot_duplicates_def)
  from filter_distinct_key[OF this, of "(name, u)"] have l: "length ?f \<le> 1" by simp
  have ff: "filter (\<lambda>p. username p = u) (filter (\<lambda>p. pred_player_name p = name) preds) = ?f"
    by (simp add: conj_commute)
  show ?thesis
  proof (cases ?f)
    case Nil
    then show ?thesis unfolding ff by (simp add: pivot_value_def)
  next
    case (Cons p ps)
    with l have "ps = []" by simp
    with Cons show ?thesis unfolding ff by (simp add: pivot_value_def)
  qed
qed

lemma present_values:
  assumes "\<not> pivot_duplicates preds"
  shows "concat (map (\<lambda>v. case v of None \<Rightarrow> [] | Some x \<Rightarrow> [x])
           (user_values (join_pivot preds cols c)))
       = concat (map (\<lambda>u. map predicted_rank
           (filter (\<lambda>p. username p = u)
              (filter (\<lambda>p. pred_player_name p = player_name c) preds))) cols)"
proof -
  have "concat (map (\<lambda>v. case v of None \<Rightarrow> [] | Some x \<Rightarrow> [x])
           (user_values (join_pivot preds cols c)))
      = concat (map (\<lambda>u. case pivot_value preds (player_name c) u of None \<Rightarrow> [] | Some x \<Rightarrow> [x]) cols)"
    by (simp add: join_pivot_def comp_def)
  also have "\<dots> = concat (map (\<lambda>u. map predicted_rank
           (filter (\<lambda>p. username p = u)
              (filter (\<lambda>p. pred_player_name p = player_name c) preds))) cols)"
    by (simp only: pivot_cell[OF assms])
  finally show ?thesis .
qed

lemma set_pivot_columns: "set (pivot_columns preds) = username ` set preds"
  by (simp add: pivot_columns_def)

lemma distinct_pivot_columns: "distinct (pivot_columns preds)"
  by (simp add: pivot_columns_def)

lemma sum_list_concat_map:
  "sum_list (concat (map f xs)) = (\<Sum>x \<leftarrow> xs. sum_list (f x :: int list))"
  by (induction xs) simp_all

lemma length_concat_map:
  "length (concat (map f xs)) = (\<Sum>x \<leftarrow> xs. length (f x))"
  by (induction xs) simp_all

lemma length_as_sum: "length xs = (\<Sum>x \<leftarrow> xs. (1::nat))"
  by (induction xs) simp_all

lemma present_sum:
  fixes Q :: "prediction list"
  assumes "distinct cols" "username ` set Q \<subseteq> set cols"
  shows "sum_list (concat (map (\<lambda>u. map predicted_rank (filter (\<lambda>p. username p = u) Q)) cols))
       = sum_list (map predicted_rank Q)"
proof -
  have "sum_list (concat (map (\<lambda>u. map predicted_rank (filter (\<lambda>p. username p = u) Q)) cols))
      = (\<Sum>u \<leftarrow> cols. \<Sum>p \<leftarrow> filter (\<lambda>p. username p = u) Q. predicted_rank p)"
    by (simp only: sum_list_concat_map)
  also have "\<dots> = sum_list (map predicted_rank Q)"
    by (rule sum_list_by_key[OF assms])
  finally show ?thesis .
qed

lemma present_length:
  fixes Q :: "prediction list"
  assumes "distinct cols" "username ` set Q \<subseteq> set cols"
  shows "length (concat (map (\<lambda>u. map predicted_rank (filter (\<lambda>p. username p = u) Q)) cols))
       = length Q"
proof -
  have "length (concat (map (\<lambda>u. map predicted_rank (filter (\<lambda>p. username p = u) Q)) cols))
      = (\<Sum>u \<leftarrow> cols. \<Sum>p \<leftarrow> filter (\<lambda>p. username p = u) Q. (1::nat))"
    by (simp only: length_concat_map length_map length_as_sum[symmetric])
  also have "\<dots> = (\<Sum>p \<leftarrow> Q. (1::nat))"
    by (rule sum_list_by_key[OF assms])
  finally show ?thesis by (simp only: length_as_sum[symmetric])
qed

text \<open>
  Without duplicate entries, the mean over the user columns of a castaway's row is the mean
  of the predicted ranks that the prediction table holds for that castaway.
\<close>

lemma avg_rank_is_mean:
  assumes "\<not> pivot_duplicates preds"
  shows "avg_rank (join_pivot preds (pivot_columns preds) c)
       = mean_predicted_rank preds (player_name c)"
proof -
  let ?Q = "filter (\<lambda>p. pred_player_name p = player_name c) preds"
  let ?present = "concat (map (\<lambda>v. case v of None \<Rightarrow> [] | Some x \<Rightarrow> [x])
           (user_values (join_pivot preds (pivot_columns preds) c)))"
  have sub: "username ` set ?Q \<subseteq> set (pivot_columns preds)"
    by (auto simp: set_pivot_columns)
  have s: "sum_list ?present = sum_list (map predicted_rank ?Q)"
    unfolding present_values[OF assms] by (rule present_sum[OF distinct_pivot_columns sub])
  have l: "length ?present = length ?Q"
    unfolding present_values[OF assms] by (rule present_length[OF distinct_pivot_columns sub])
  have e: "?present = [] \<longleftrightarrow> ?Q = []" using l by (metis length_0_conv)
  show ?thesis
    unfolding avg_rank_def mean_predicted_rank_def Let_def
    using s l e by simp
qed

lemma load_all_predictions_Inr:
  assumes "preds \<noteq> []" and "load_all_predictions cast preds = Inr tbl"
  shows "\<not> pivot_duplicates preds"
    and "''avg_rank'' \<notin> set (pivot_columns preds)"
    and "columns tbl = [''tribe'', ''actual_rank''] @ pivot_columns preds"
    and "index_rows tbl =
           sort_values_na_last avg_rank (map (join_pivot preds (pivot_columns preds)) cast)"
proof -
  show d: "\<not> pivot_duplicates preds"
    using assms by (auto simp: load_all_predictions_def)
  have c: "cast \<noteq> []" using assms d by (auto simp: load_all_predictions_def)
  have o: "\<not> (''tribe'' \<in> set (pivot_columns preds) \<or> ''actual_rank'' \<in> set (pivot_columns preds))"
    using assms d c by (auto simp: load_all_predictions_def Let_def)
  then have uc: "filter (\<lambda>c. c \<noteq> ''tribe'' \<and> c \<noteq> ''actual_rank'') (pivot_columns preds)
                 = pivot_columns preds"
    by (auto simp: filter_id_conv)
  show a: "''avg_rank'' \<notin> set (pivot_columns preds)"
  proof
    assume "''avg_rank'' \<in> set (pivot_columns preds)"
    then have "load_all_predictions cast preds = Inl KeyError"
      unfolding load_all_predictions_def Let_def uc using assms(1) d c o by simp
    with assms(2) show False by simp
  qed
  have "load_all_predictions cast preds =
      Inr \<lparr>columns = [''tribe'', ''actual_rank''] @ pivot_columns preds,
           index_rows = sort_values_na_last avg_rank
              (map (join_pivot preds (pivot_columns preds)) cast)\<rparr>"
    unfolding load_all_predictions_def Let_def uc using assms(1) d c o a by simp
  with assms(2) have t: "tbl = \<lparr>columns = [''tribe'', ''actual_rank''] @ pivot_columns preds,
           index_rows = sort_values_na_last avg_rank
              (map (join_pivot preds (pivot_columns preds)) cast)\<rparr>"
    by simp
  show "columns tbl = [''tribe'', ''actual_rank''] @ pivot_columns preds"
    by (subst t) (simp only: standings.select_convs)
  show "index_rows tbl =
           sort_values_na_last avg_rank (map (join_pivot preds (pivot_columns preds)) cast)"
    by (subst t) (simp only: standings.select_convs)
qed

lemma load_all_predictions_no_preds:
  assumes "load_all_predictions cast [] = Inr tbl"
  shows "index_rows tbl = map (join_pivot [] []) cast"
proof -
  have "cast \<noteq> []" using assms by (auto simp: load_all_predictions_def)
  then have "tbl = \<lparr>columns = [''tribe'', ''actual_rank''],
                   index_rows = map (join_pivot [] []) cast\<rparr>"
    using assms by (simp add: load_all_predictions_def)
  then show ?thesis by (simp only: standings.select_convs)
qed

lemma sorted_wrt_all:
  "(\<And>x y. x \<in> set xs \<Longrightarrow> y \<in> set xs \<Longrightarrow> P x y) \<Longrightarrow> sorted_wrt P xs"
  by (induction xs) auto

lemma sorted_wrt_sort_key:
  "sorted_wrt (\<lambda>x y. k x \<le> k y) (sort_key k (xs :: 'a list))" for k :: "'a \<Rightarrow> rat"
  using sorted_sort_key[of k xs] by (simp add: sorted_map)

lemma index_player_name_join_pivot [simp]:
  "index_player_name (join_pivot preds cols c) = player_name c"
  by (simp add: join_pivot_def)

lemma mean_None_iff: "mean_predicted_rank preds name = None \<longleftrightarrow> \<not> has_prediction preds name"
  by (auto simp: mean_predicted_rank_def has_prediction_def list_ex_iff filter_empty_conv Let_def)

lemma standings_rows_sorted:
  fixes m :: "'a \<Rightarrow> rat option"
  shows "sorted_wrt (\<lambda>x y. \<forall>a b. m x = Some a \<and> m y = Some b \<longrightarrow> a \<le> b)
           (sort_values_na_last m xs)"
proof -
  let ?P = "\<lambda>x y. \<forall>a b. m x = Some a \<and> m y = Some b \<longrightarrow> a \<le> b"
  let ?A = "sort_key (\<lambda>x. the (m x)) (filter (\<lambda>x. m x \<noteq> None) xs)"
  let ?B = "filter (\<lambda>x. m x = None) xs"
  have "sorted_wrt (\<lambda>x y. the (m x) \<le> the (m y)) ?A" by (rule sorted_wrt_sort_key)
  then have A: "sorted_wrt ?P ?A" by (rule sorted_wrt_mono_rel[rotated]) auto
  have B: "sorted_wrt ?P ?B" by (rule sorted_wrt_all) auto
  have "\<forall>x \<in> set ?A. \<forall>y \<in> set ?B. ?P x y" by auto
  with A B show ?thesis by (simp add: sort_values_na_last_def sorted_wrt_append)
qed

lemma standings_rows_na_last:
  fixes m :: "'a \<Rightarrow> rat option"
  shows "sorted_wrt (\<lambda>x y. m x = None \<longrightarrow> m y = None) (sort_values_na_last m xs)"
proof -
  let ?P = "\<lambda>x y. m x = None \<longrightarrow> m y = None"
  let ?A = "sort_key (\<lambda>x. the (m x)) (filter (\<lambda>x. m x \<noteq> None) xs)"
  let ?B = "filter (\<lambda>x. m x = None) xs"
  have inA: "m x \<noteq> None" if "x \<in> set ?A" for x using that by simp
  have inB: "m y = None" if "y \<in> set ?B" for y using that by simp
  have A: "sorted_wrt ?P ?A"
  proof (rule sorted_wrt_all)
    fix x y assume "x \<in> set ?A"
    from inA[OF this] show "?P x y" by blast
  qed
  have B: "sorted_wrt ?P ?B"
  proof (rule sorted_wrt_all)
    fix x y assume "y \<in> set ?B"
    from inB[OF this] show "?P x y" by blast
  qed
  have C: "\<forall>x \<in> set ?A. \<forall>y \<in> set ?B. ?P x y" using inB by blast
  show ?thesis
    unfolding sort_values_na_last_def sorted_wrt_append using A B C by blast
qed

lemma set_sort_values_na_last: "set (sort_values_na_last m xs) = set xs"
  by (auto simp: sort_values_na_last_def)

lemma length_sort_values_na_last: "length (sort_values_na_last m xs) = length xs"
proof -
  have "length (filter (\<lambda>x. m x \<noteq> None) xs) + length (filter (\<lambda>x. m x = None) xs) = length xs"
    using sum_length_filter_compl[of "\<lambda>x. m x = None" xs] by simp
  then show ?thesis by (simp add: sort_values_na_last_def)
qed

lemma sorted_wrt_cong_set:
  "sorted_wrt P xs \<Longrightarrow> (\<And>x y. x \<in> set xs \<Longrightarrow> y \<in> set xs \<Longrightarrow> P x y \<Longrightarrow> Q x y) \<Longrightarrow> sorted_wrt Q xs"
  by (rule sorted_wrt_mono_rel[rotated])

lemma standings_row_names:
  assumes "load_all_predictions cast preds = Inr tbl" and "r \<in> set (index_rows tbl)"
  shows "\<exists>c \<in> set cast. r = join_pivot preds (pivot_columns preds) c
           \<or> (preds = [] \<and> r = join_pivot [] [] c)"
proof (cases "preds = []")
  case True
  then show ?thesis using assms load_all_predictions_no_preds[of cast tbl] by auto
next
  case False
  from load_all_predictions_Inr(4)[OF False assms(1)] assms(2)
  have "r \<in> set (map (join_pivot preds (pivot_columns preds)) cast)"
    by (simp only: set_sort_values_na_last)
  then show ?thesis by auto
qed

text \<open>
  Claim C7. For a castaway table and a non-empty prediction table, the rows of the standings
  are in ascending order of the mean of the castaway's present predicted ranks: of two rows
  that both have a mean, the earlier one has the smaller or equal mean. The label
  \<^verbatim>\<open>avg_rank\<close> is not among the columns of the result. (The mean is the exact quotient.
  The source computes it in double precision, which gives the same order as long as
  different means round to different doubles, as they do for any table of realistic size.)
\<close>

theorem C7_standings_sorted_by_mean:
  assumes "preds \<noteq> []" and "load_all_predictions cast preds = Inr tbl"
  shows "sorted_wrt (\<lambda>x y. \<forall>a b.
             mean_predicted_rank preds (index_player_name x) = Some a
           \<and> mean_predicted_rank preds (index_player_name y) = Some b \<longrightarrow> a \<le> b)
           (index_rows tbl)
       \<and> ''avg_rank'' \<notin> set (columns tbl)"
proof -
  note l = load_all_predictions_Inr[OF assms]
  let ?xs = "map (join_pivot preds (pivot_columns preds)) cast"
  have m: "avg_rank x = mean_predicted_rank preds (index_player_name x)"
    if "x \<in> set (sort_values_na_last avg_rank ?xs)" for x
  proof -
    from that have "x \<in> set ?xs" by (simp only: set_sort_values_na_last)
    then obtain c where "x = join_pivot preds (pivot_columns preds) c" by auto
    then show ?thesis using avg_rank_is_mean[OF l(1), of c] by simp
  qed
  have "sorted_wrt (\<lambda>x y. \<forall>a b. avg_rank x = Some a \<and> avg_rank y = Some b \<longrightarrow> a \<le> b)
          (sort_values_na_last avg_rank ?xs)"
    by (rule standings_rows_sorted)
  then have "sorted_wrt (\<lambda>x y. \<forall>a b.
             mean_predicted_rank preds (index_player_name x) = Some a
           \<and> mean_predicted_rank preds (index_player_name y) = Some b \<longrightarrow> a \<le> b)
          (sort_values_na_last avg_rank ?xs)"
    by (rule sorted_wrt_cong_set) (simp add: m)
  then have s: "sorted_wrt (\<lambda>x y. \<forall>a b.
             mean_predicted_rank preds (index_player_name x) = Some a
           \<and> mean_predicted_rank preds (index_player_name y) = Some b \<longrightarrow> a \<le> b)
           (index_rows tbl)"
    by (simp only: l(4))
  have "''avg_rank'' \<notin> set (columns tbl)" using l(2) by (simp add: l(3))
  with s show ?thesis by blast
qed

text \<open>
  Claim C10. In the standings, no row of a castaway that has a predicted rank comes after a
  row of a castaway that nobody has ranked; the rows are those of the castaway table.
\<close>

theorem C10_unpredicted_castaways_last:
  assumes "load_all_predictions cast preds = Inr tbl"
  shows "sorted_wrt (\<lambda>x y. \<not> has_prediction preds (index_player_name x)
                       \<longrightarrow> \<not> has_prediction preds (index_player_name y)) (index_rows tbl)
       \<and> set (map index_player_name (index_rows tbl)) = set (map player_name cast)
       \<and> length (index_rows tbl) = length cast"
proof (cases "preds = []")
  case True
  from load_all_predictions_no_preds[of cast tbl] assms True
  have r: "index_rows tbl = map (join_pivot [] []) cast" by simp
  have "sorted_wrt (\<lambda>x y. \<not> has_prediction preds (index_player_name x)
                       \<longrightarrow> \<not> has_prediction preds (index_player_name y)) (index_rows tbl)"
    by (rule sorted_wrt_all) (simp add: True has_prediction_def)
  moreover have "map index_player_name (index_rows tbl) = map player_name cast"
    by (simp add: r comp_def)
  moreover have "length (index_rows tbl) = length cast" by (simp add: r)
  ultimately show ?thesis by simp
next
  case False
  note l = load_all_predictions_Inr[OF False assms]
  let ?xs = "map (join_pivot preds (pivot_columns preds)) cast"
  have m: "avg_rank x = mean_predicted_rank preds (index_player_name x)"
    if "x \<in> set (sort_values_na_last avg_rank ?xs)" for x
  proof -
    from that have "x \<in> set ?xs" by (simp only: set_sort_values_na_last)
    then obtain c where "x = join_pivot preds (pivot_columns preds) c" by auto
    then show ?thesis using avg_rank_is_mean[OF l(1), of c] by simp
  qed
  have "sorted_wrt (\<lambda>x y. avg_rank x = None \<longrightarrow> avg_rank y = None)
          (sort_values_na_last avg_rank ?xs)"
    by (rule standings_rows_na_last)
  then have "sorted_wrt (\<lambda>x y. \<not> has_prediction preds (index_player_name x)
                       \<longrightarrow> \<not> has_prediction preds (index_player_name y))
          (sort_values_na_last avg_rank ?xs)"
    by (rule sorted_wrt_cong_set) (simp add: m mean_None_iff)
  then have s: "sorted_wrt (\<lambda>x y. \<not> has_prediction preds (index_player_name x)
                       \<longrightarrow> \<not> has_prediction preds (index_player_name y)) (index_rows tbl)"
    by (simp only: l(4))
  have "set (map index_player_name (index_rows tbl)) = set (map index_player_name ?xs)"
    by (simp only: l(4) set_map set_sort_values_na_last)
  also have "\<dots> = set (map player_name cast)" by (simp add: comp_def)
  finally have n: "set (map index_player_name (index_rows tbl)) = set (map player_name cast)" .
  have "length (index_rows tbl) = length cast"
    by (simp only: l(4) length_sort_values_na_last length_map)
  with s n show ?thesis by blast
qed

lemma season_preds_nonempty: "season_preds \<noteq> []"
  by (simp add: season_preds_def)

lemma season_standings:
  "load_all_predictions season_cast season_preds =
     Inr \<lparr>columns = [''tribe'', ''actual_rank'', ''amy'', ''bob''], index_rows = season_rows\<rparr>"
  by code_simp

theorem C7_standings_sorted_by_mean_witness:
  "load_all_predictions season_cast season_preds =
       Inr \<lparr>columns = [''tribe'', ''actual_rank'', ''amy'', ''bob''], index_rows = season_rows\<rparr>
   \<and> mean_predicted_rank season_preds ''Ana'' = Some (3 / 2)
   \<and> mean_predicted_rank season_preds ''Dee'' = Some 5
   \<and> (3 / 2 :: rat) \<le> 5
   \<and> ''avg_rank'' \<notin> set [''tribe'', ''actual_rank'', ''amy'', ''bob'']"
proof -
  note t = C7_standings_sorted_by_mean[OF season_preds_nonempty season_standings]
  let ?P = "\<lambda>x y. \<forall>a b.
             mean_predicted_rank season_preds (index_player_name x) = Some a
           \<and> mean_predicted_rank season_preds (index_player_name y) = Some b \<longrightarrow> a \<le> b"
  from t have s: "sorted_wrt ?P season_rows"
    and c: "''avg_rank'' \<notin> set [''tribe'', ''actual_rank'', ''amy'', ''bob'']"
    by (simp_all only: standings.select_convs simp_thms)
  have ana: "mean_predicted_rank season_preds ''Ana'' = Some (3 / 2)"
    by (simp add: mean_predicted_rank_def season_preds_def)
  have dee: "mean_predicted_rank season_preds ''Dee'' = Some 5"
    by (simp add: mean_predicted_rank_def season_preds_def)
  from s have "?P (season_rows ! 0) (season_rows ! 3)"
    by (rule sorted_wrt_nth_less) (simp_all add: season_rows_def)
  then have "(3 / 2 :: rat) \<le> 5" using ana dee by (simp add: season_rows_def)
  with season_standings ana dee c show ?thesis by blast
qed

theorem C10_unpredicted_castaways_last_witness:
  "load_all_predictions season_cast season_preds =
       Inr \<lparr>columns = [''tribe'', ''actual_rank'', ''amy'', ''bob''], index_rows = season_rows\<rparr>
   \<and> has_prediction season_preds (index_player_name (season_rows ! 3)) = True
   \<and> has_prediction season_preds (index_player_name (season_rows ! 4)) = False
   \<and> set (map index_player_name season_rows) = set (map player_name season_cast)
   \<and> length season_rows = length season_cast"
proof -
  note t = C10_unpredicted_castaways_last[OF season_standings]
  from t have "set (map index_player_name season_rows) = set (map player_name season_cast)
   \<and> length season_rows = length season_cast"
    by (simp only: standings.select_convs simp_thms)
  moreover have "has_prediction season_preds (index_player_name (season_rows ! 3)) = True"
    by (simp add: has_prediction_def season_preds_def season_rows_def)
  moreover have "has_prediction season_preds (index_player_name (season_rows ! 4)) = False"
    by (simp add: has_prediction_def season_preds_def season_rows_def)
  ultimately show ?thesis using season_standings by blast
qed

end
